theory Spec2Isabelle
  imports Main "HOL-Library.Sublist"
begin

section \<open>Paths\<close>

text \<open>
  A \<open>path\<close> is an absolute, normalised POSIX path, held as its list of segments from
  the root: \<open>/home/u/app\<close> is \<open>[''home'', ''u'', ''app'']\<close> and \<open>[]\<close> is the root. This
  is what \<open>process.cwd()\<close> and \<open>path.join\<close> (on an absolute first argument) return, up to
  a trailing separator, which no filesystem call of the program distinguishes.
\<close>

type_synonym path = "string list"

text \<open>Splitting a string at every \<open>/\<close>; the pieces may be empty.\<close>

fun split_sep :: "string \<Rightarrow> string list" where
  "split_sep [] = [[]]"
| "split_sep (c # cs) =
     (if c = CHR ''/'' then [] # split_sep cs
      else (case split_sep cs of
              [] \<Rightarrow> [[c]]
            | s # ss \<Rightarrow> (c # s) # ss))"

text \<open>
  One segment of the normalisation that \<open>path.join\<close> runs: empty segments and \<open>.\<close> are
  dropped, \<open>..\<close> removes the last segment (and is dropped at the root).
\<close>

definition join_step :: "path \<Rightarrow> string \<Rightarrow> path" where
  "join_step acc seg =
     (if seg = [] \<or> seg = ''.'' then acc
      else if seg = ''..'' then butlast acc
      else acc @ [seg])"

definition path_join :: "path \<Rightarrow> string \<Rightarrow> path" where
  "path_join base s = foldl join_step base (split_sep s)"

section \<open>The host: filesystem, external commands, console\<close>

datatype node = Dir | File string

type_synonym fs = "path \<Rightarrow> node option"

definition is_dir :: "fs \<Rightarrow> path \<Rightarrow> bool" where
  "is_dir f p = (p = [] \<or> f p = Some Dir)"

text \<open>
  A failed filesystem call rejects with an error that carries an error code and the
  call it came from (the system call and the path it was given); a command that exits
  with a non-zero status makes \<open>execSync\<close> throw.
\<close>

datatype fs_op = Mkdir path | WriteFile path

datatype errno = EACCES | EEXIST | ENOTDIR | ENOENT | EISDIR

datatype error = SystemError errno fs_op | ExitNonZero string

text \<open>
  What the run cannot decide for itself: the working directory, which filesystem
  operations the host refuses (permissions, quota), and what an external command does
  to the filesystem and whether it exits with status zero.
\<close>

record env =
  cwd :: path
  denied :: "fs_op \<Rightarrow> bool"
  spawn :: "string \<Rightarrow> path \<Rightarrow> fs \<Rightarrow> bool \<times> fs"

text \<open>
  What a run does to the outside, in order: console output, the prompts shown, the
  spinner, every filesystem call with its arguments, every command run with its working
  directory and whether it exited with status 0, and the exit through
  \<open>process.exit\<close>. Styling (colours, the banner font) is not part of an event; the
  success message is held by its two variable parts, the name and the path.
\<close>

datatype event =
    ConsoleLog string
  | ConsoleError string error
  | ConsoleErrorRaw error
  | Prompt string
  | SpinnerStart string
  | SpinnerText string
  | SpinnerSucceed string path
  | SpinnerFail string
  | CallMkdir path
  | CallWriteFile path string
  | CallExec string path bool
  | ProcessExit nat

record world =
  files :: fs
  events :: "event list"

text \<open>
  An awaited call either resolves (\<open>Inr\<close>) or rejects with an error (\<open>Inl\<close>), and
  leaves the world as it made it in both cases.
\<close>

type_synonym io = "world \<Rightarrow> (error + unit) \<times> world"

definition emit :: "event \<Rightarrow> world \<Rightarrow> world" where
  "emit ev w = w\<lparr>events := events w @ [ev]\<rparr>"

text \<open>
  \<open>fs.mkdir(p, { recursive: true })\<close> walks the prefixes of \<open>p\<close> from the root: an
  existing directory is passed, a missing one is created unless the host refuses, a
  file in the way is an error. What was created before an error stays.
\<close>

fun mkdir_chain :: "(fs_op \<Rightarrow> bool) \<Rightarrow> path \<Rightarrow> path list \<Rightarrow> fs \<Rightarrow> (error + unit) \<times> fs" where
  "mkdir_chain dn p [] f = (Inr (), f)"
| "mkdir_chain dn p (q # qs) f =
     (case f q of
        Some Dir \<Rightarrow> mkdir_chain dn p qs f
      | Some (File c) \<Rightarrow> (Inl (SystemError (if qs = [] then EEXIST else ENOTDIR) (Mkdir p)), f)
      | None \<Rightarrow>
          if dn (Mkdir q) then (Inl (SystemError EACCES (Mkdir p)), f)
          else mkdir_chain dn p qs (f(q \<mapsto> Dir)))"

definition fs_mkdir :: "env \<Rightarrow> path \<Rightarrow> io" where
  "fs_mkdir e p w =
     (case mkdir_chain (denied e) p (tl (prefixes p)) (files w) of
        (r, f') \<Rightarrow> (r, \<lparr>files = f', events = events w @ [CallMkdir p]\<rparr>))"

text \<open>
  Resolving the directories that lead to a path: the first prefix that is a file gives
  \<open>ENOTDIR\<close>, the first that is missing gives \<open>ENOENT\<close>.
\<close>

fun blocked :: "fs \<Rightarrow> path list \<Rightarrow> errno option" where
  "blocked f [] = None"
| "blocked f (q # qs) =
     (case f q of
        Some Dir \<Rightarrow> blocked f qs
      | Some (File c) \<Rightarrow> Some ENOTDIR
      | None \<Rightarrow> Some ENOENT)"

text \<open>
  \<open>fs.writeFile(p, content)\<close> creates or overwrites the file; it fails when the
  directories leading to \<open>p\<close> do not resolve, when \<open>p\<close> is a directory, or when the host
  refuses.
\<close>

definition write_node :: "(fs_op \<Rightarrow> bool) \<Rightarrow> path \<Rightarrow> string \<Rightarrow> fs \<Rightarrow> (error + unit) \<times> fs" where
  "write_node dn p content f =
     (if p = [] then (Inl (SystemError EISDIR (WriteFile p)), f)
      else case blocked f (tl (prefixes (butlast p))) of
             Some code \<Rightarrow> (Inl (SystemError code (WriteFile p)), f)
           | None \<Rightarrow>
               if f p = Some Dir then (Inl (SystemError EISDIR (WriteFile p)), f)
               else if dn (WriteFile p) then (Inl (SystemError EACCES (WriteFile p)), f)
               else (Inr (), f(p \<mapsto> File content)))"

definition fs_writeFile :: "env \<Rightarrow> path \<Rightarrow> string \<Rightarrow> io" where
  "fs_writeFile e p content w =
     (case write_node (denied e) p content (files w) of
        (r, f') \<Rightarrow> (r, \<lparr>files = f', events = events w @ [CallWriteFile p content]\<rparr>))"

text \<open>
  \<open>execSync(cmd, { cwd })\<close> blocks until the command exits and throws on a non-zero
  status; the filesystem is whatever the command left.
\<close>

definition execSync :: "env \<Rightarrow> string \<Rightarrow> path \<Rightarrow> io" where
  "execSync e cmd dir w =
     (case spawn e cmd dir (files w) of
        (ok, f') \<Rightarrow>
          (if ok then Inr () else Inl (ExitNonZero cmd),
           \<lparr>files = f', events = events w @ [CallExec cmd dir ok]\<rparr>))"

text \<open>Awaiting one step after another: the first rejection ends the sequence.\<close>

definition seq :: "io \<Rightarrow> io \<Rightarrow> io" where
  "seq m k w = (case m w of (Inl err, w') \<Rightarrow> (Inl err, w') | (Inr u, w') \<Rightarrow> k w')"

definition lift :: "(world \<Rightarrow> world) \<Rightarrow> io" where
  "lift g w = (Inr (), g w)"


section \<open>JSON values and \<open>JSON.stringify(value, null, 2)\<close>\<close>

datatype json = JString string | JBool bool | JObject "(string \<times> json) list"

definition hex_digit :: "nat \<Rightarrow> char" where
  "hex_digit n = ''0123456789abcdef'' ! (n mod 16)"

text \<open>
  The escapes of a JSON string literal: the quote, the backslash, the named control
  characters, \<open>\u00XX\<close> for the other bytes below \<open>0x20\<close>; every other byte of the
  UTF-8 text stands for itself.
\<close>

definition quote_char :: "char \<Rightarrow> string" where
  "quote_char c =
     (if c = CHR 0x22 then [CHR 0x5C, CHR 0x22]
      else if c = CHR 0x5C then [CHR 0x5C, CHR 0x5C]
      else if c = CHR 0x08 then [CHR 0x5C, CHR ''b'']
      else if c = CHR 0x0C then [CHR 0x5C, CHR ''f'']
      else if c = CHR 0x0A then [CHR 0x5C, CHR ''n'']
      else if c = CHR 0x0D then [CHR 0x5C, CHR ''r'']
      else if c = CHR 0x09 then [CHR 0x5C, CHR ''t'']
      else if (of_char c :: nat) < 32
        then [CHR 0x5C, CHR ''u'', CHR ''0'', CHR ''0'',
              hex_digit (of_char c div 16), hex_digit (of_char c mod 16)]
      else [c])"

definition json_quote :: "string \<Rightarrow> string" where
  "json_quote s = [CHR 0x22] @ concat (map quote_char s) @ [CHR 0x22]"

fun join_with :: "string \<Rightarrow> string list \<Rightarrow> string" where
  "join_with sep [] = []"
| "join_with sep [x] = x"
| "join_with sep (x # y # ys) = x @ sep @ join_with sep (y # ys)"

text \<open>Serialisation at indentation \<open>ind\<close> (in spaces) with a gap of two spaces.\<close>

fun stringify :: "nat \<Rightarrow> json \<Rightarrow> string" where
  "stringify ind (JString s) = json_quote s"
| "stringify ind (JBool b) = (if b then ''true'' else ''false'')"
| "stringify ind (JObject kvs) =
     (if kvs = [] then ''{}''
      else ''{'' @ [CHR 0x0A] @ replicate (ind + 2) CHR '' ''
           @ join_with ('','' @ [CHR 0x0A] @ replicate (ind + 2) CHR '' '')
               (map (\<lambda>kv. json_quote (fst kv) @ '': '' @ stringify (ind + 2) (snd kv)) kvs)
           @ [CHR 0x0A] @ replicate ind CHR '' '' @ ''}'')"

definition JSON_stringify :: "json \<Rightarrow> string" where
  "JSON_stringify v = stringify 0 v"

fun json_get :: "string \<Rightarrow> json \<Rightarrow> json option" where
  "json_get k (JObject kvs) = map_of kvs k"
| "json_get k v = None"

section \<open>The generated content\<close>

text \<open>
  Each template literal of the source opens with a line break right after the
  backquote and has none at its end: the text is every line preceded by a line feed.
\<close>

definition template_literal :: "string list \<Rightarrow> string" where
  "template_literal ls = concat (map (\<lambda>l. CHR 0x0A # l) ls)"

definition layoutContent :: string where
  \<open>layoutContent = template_literal
     [''export default function RootLayout({'',
      ''  children,'',
      ''}: {'',
      ''  children: React.ReactNode'',
      ''}) {'',
      ''  return ('',
      ''    <html lang="en">'',
      ''      <body>{children}</body>'',
      ''    </html>'',
      ''  )'',
      ''}'']\<close>

definition pageContent :: string where
  \<open>pageContent = template_literal
     [''export default function Home() {'',
      ''  return ('',
      ''    <main>'',
      ''      <h1>Welcome to Next.js!</h1>'',
      ''    </main>'',
      ''  )'',
      ''}'']\<close>

definition globalCssContent :: string where
  \<open>globalCssContent = template_literal
     [''* {'',
      ''  box-sizing: border-box;'',
      ''  padding: 0;'',
      ''  margin: 0;'',
      ''}'',
      '''',
      ''html,'',
      ''body {'',
      ''  max-width: 100vw;'',
      ''  overflow-x: hidden;'',
      ''}'']\<close>

definition gitignoreContent :: string where
  \<open>gitignoreContent = template_literal
     [''# dependencies'',
      ''/node_modules'',
      ''/.pnp'',
      ''.pnp.js'',
      '''',
      ''# testing'',
      ''/coverage'',
      '''',
      ''# next.js'',
      ''/.next/'',
      ''/out/'',
      '''',
      ''# production'',
      ''/build'',
      '''',
      ''# misc'',
      ''.DS_Store'',
      ''*.pem'',
      '''',
      ''# debug'',
      ''npm-debug.log*'',
      ''yarn-debug.log*'',
      ''yarn-error.log*'',
      '''',
      ''# local env files'',
      ''.env*.local'',
      '''',
      ''# vercel'',
      ''.vercel'',
      '''',
      ''# typescript'',
      ''*.tsbuildinfo'',
      ''next-env.d.ts'']\<close>

definition directories :: "string list" where
  "directories = [''public'', ''src/app'', ''src/components'', ''src/styles'']"

definition packageJson :: "string \<Rightarrow> json" where
  "packageJson name = JObject
     [(''name'', JString name),
      (''version'', JString ''0.1.0''),
      (''private'', JBool True),
      (''scripts'', JObject
         [(''dev'', JString ''next dev''),
          (''build'', JString ''next build''),
          (''start'', JString ''next start''),
          (''lint'', JString ''next lint'')]),
      (''dependencies'', JObject
         [(''next'', JString ''14.1.0''),
          (''react'', JString ''^18.2.0''),
          (''react-dom'', JString ''^18.2.0'')]),
      (''devDependencies'', JObject
         [(''@types/node'', JString ''^20.11.0''),
          (''@types/react'', JString ''^18.2.0''),
          (''@types/react-dom'', JString ''^18.2.0''),
          (''typescript'', JString ''^5.3.0''),
          (''eslint'', JString ''^8.56.0''),
          (''eslint-config-next'', JString ''14.1.0'')])]"

section \<open>The program\<close>

text \<open>
  The functions of \<open>bin/index.js\<close>, each with the working directory of the project as
  \<open>dir\<close> and the project name as \<open>name\<close>. \<open>createProjectDirectory\<close> catches the
  rejection of \<open>mkdir\<close>, logs it and returns \<open>false\<close>; the other two writers let a
  rejection through.
\<close>

definition createProjectDirectory :: "env \<Rightarrow> path \<Rightarrow> world \<Rightarrow> bool \<times> world" where
  "createProjectDirectory e dir w =
     (case fs_mkdir e dir w of
        (Inr u, w') \<Rightarrow> (True, w')
      | (Inl err, w') \<Rightarrow> (False, emit (ConsoleError ''Error creating directory:'' err) w'))"

definition createPackageJson :: "env \<Rightarrow> path \<Rightarrow> string \<Rightarrow> io" where
  "createPackageJson e dir name =
     fs_writeFile e (path_join dir ''package.json'')
       (JSON_stringify (packageJson name))"

text \<open>The loop over \<open>directories\<close>: the first rejection ends it.\<close>

fun mkdir_each :: "env \<Rightarrow> path \<Rightarrow> string list \<Rightarrow> io" where
  "mkdir_each e base [] = lift (\<lambda>w. w)"
| "mkdir_each e base (dir # dirs) =
     seq (fs_mkdir e (path_join base dir)) (mkdir_each e base dirs)"

definition createProjectFiles :: "env \<Rightarrow> path \<Rightarrow> io" where
  "createProjectFiles e dir =
     seq (mkdir_each e dir directories)
    (seq (fs_writeFile e (path_join dir ''src/app/layout.tsx'') layoutContent)
    (seq (fs_writeFile e (path_join dir ''src/app/page.tsx'') pageContent)
         (fs_writeFile e (path_join dir ''src/styles/globals.css'') globalCssContent)))"

text \<open>
  \<open>initializeGit\<close> holds \<open>git init\<close> and the write of \<open>.gitignore\<close> in one \<open>try\<close>:
  whichever throws, the error is logged and the function returns normally.
\<close>

definition initializeGit :: "env \<Rightarrow> path \<Rightarrow> world \<Rightarrow> world" where
  "initializeGit e dir w =
     (case seq (execSync e ''git init'' dir)
               (fs_writeFile e (path_join dir ''.gitignore'') gitignoreContent) w of
        (Inr u, w') \<Rightarrow> w'
      | (Inl err, w') \<Rightarrow> emit (ConsoleError ''Error initializing git:'' err) w')"

text \<open>
  The \<open>input\<close> prompt with a default: an empty entry answers the default, any other
  entry answers itself, unvalidated. The \<open>list\<close> prompt answers one of its choices.
\<close>

definition inquirer_input :: "string \<Rightarrow> string \<Rightarrow> string" where
  "inquirer_input dflt entered = (if entered = [] then dflt else entered)"

datatype template = DefaultTypeScript | WithTailwind | BasicJavaScript

fun choice_label :: "template \<Rightarrow> string" where
  "choice_label DefaultTypeScript = ''Default Next.js (TypeScript)''"
| "choice_label WithTailwind = ''Next.js with Tailwind CSS''"
| "choice_label BasicJavaScript = ''Basic Next.js (JavaScript)''"

text \<open>What the operator enters at the two prompts, and how a run ends.\<close>

record answers =
  entered_name :: string
  chosen :: template

record outcome =
  exit_code :: nat
  final :: world

text \<open>The constants \<open>projectName\<close> and \<open>projectPath\<close> of the action.\<close>

definition projectName :: "answers \<Rightarrow> string" where
  "projectName a = inquirer_input ''my-next-app'' (entered_name a)"

definition projectPath :: "env \<Rightarrow> answers \<Rightarrow> path" where
  "projectPath e a = path_join (cwd e) (projectName a)"

text \<open>The body of the \<open>try\<close> block of the action.\<close>

definition try_block :: "env \<Rightarrow> path \<Rightarrow> string \<Rightarrow> io" where
  "try_block e dir name w =
     (case createProjectDirectory e dir w of
        (created, w1) \<Rightarrow>
          seq (createPackageJson e dir name)
         (seq (createProjectFiles e dir)
         (seq (lift (initializeGit e dir))
         (seq (lift (emit (SpinnerText ''Installing dependencies...'')))
         (seq (execSync e ''npm install'' dir)
              (lift (emit (SpinnerSucceed name dir))))))) w1)"

text \<open>
  The action: banner, the two prompts, the spinner, the \<open>try\<close> block, and the
  \<open>catch\<close> that reports and exits with code 1. A run that is not sent through
  \<open>process.exit(1)\<close> ends with exit code 0. The answer of the second prompt is bound
  and never read. Both prompts are taken as answered: a prompt whose input stream
  fails rejects outside the \<open>try\<close> block, before any filesystem call.
\<close>

definition action :: "env \<Rightarrow> answers \<Rightarrow> fs \<Rightarrow> outcome" where
  "action e a f0 =
     (let w0 = \<lparr>files = f0, events = [ConsoleLog ''Set My Stack'']\<rparr>;
          w1 = emit (Prompt ''What is your project named?'') w0;
          w2 = emit (Prompt ''Choose your template'') w1;
          template = choice_label (chosen a);
          w3 = emit (SpinnerStart ''Creating your Next.js app...'') w2
      in case try_block e (projectPath e a) (projectName a) w3 of
           (Inr u, w') \<Rightarrow> \<lparr>exit_code = 0, final = w'\<rparr>
         | (Inl err, w') \<Rightarrow>
             \<lparr>exit_code = 1,
              final = emit (ProcessExit 1) (emit (ConsoleErrorRaw err)
                        (emit (SpinnerFail ''Failed to create project'') w'))\<rparr>)"

section \<open>Notions used in the statements\<close>

text \<open>
  The predicates and projections below are used to state what a run does: which
  entries a filesystem keeps, what a run logs and writes, how a JSON text is read back,
  and the concrete hosts on which the closed instances are evaluated.
\<close>

definition plain_segment :: "string \<Rightarrow> bool" where
  "plain_segment s = (s \<noteq> [] \<and> s \<noteq> ''.'' \<and> s \<noteq> ''..'' \<and> CHR ''/'' \<notin> set s)"

definition keeps :: "fs \<Rightarrow> fs \<Rightarrow> bool" where
  "keeps f g = (\<forall>p. case f p of
                      None \<Rightarrow> True
                    | Some Dir \<Rightarrow> g p = Some Dir
                    | Some (File c) \<Rightarrow> (\<exists>c'. g p = Some (File c')))"

definition spawn_keeps :: "env \<Rightarrow> bool" where
  "spawn_keeps e = (\<forall>cmd dir f. keeps f (snd (spawn e cmd dir f)))"

definition io_keeps :: "io \<Rightarrow> bool" where
  "io_keeps m = (\<forall>w. keeps (files w) (files (snd (m w))))"

definition replays :: "io \<Rightarrow> bool" where
  "replays m = (\<forall>w u w1 g. m w = (Inr u, w1) \<longrightarrow> keeps (files w1) (files g)
                  \<longrightarrow> (\<exists>g1. m g = (Inr (), g1)))"

definition directory_step :: "env \<Rightarrow> path \<Rightarrow> io" where
  "directory_step e dir w = (Inr (), snd (createProjectDirectory e dir w))"

definition npm_succeeds :: "env \<Rightarrow> bool" where
  "npm_succeeds e = (\<forall>dir f. fst (spawn e ''npm install'' dir f))"

abbreviation started :: "fs \<Rightarrow> world" where
  "started f \<equiv> \<lparr>files = f, events = [ConsoleLog ''Set My Stack'', Prompt ''What is your project named?'',
      Prompt ''Choose your template'', SpinnerStart ''Creating your Next.js app...'']\<rparr>"

fun written :: "event list \<Rightarrow> (path \<times> string) list" where
  "written [] = []"
| "written (CallWriteFile q c # evs) = (q, c) # written evs"
| "written (ev # evs) = written evs"

fun is_fs_call :: "event \<Rightarrow> bool" where
  "is_fs_call (CallMkdir q) = True"
| "is_fs_call (CallWriteFile q c) = True"
| "is_fs_call ev = False"

definition logs :: "io \<Rightarrow> (path \<times> string) list \<Rightarrow> bool" where
  "logs m L = (\<forall>w. \<exists>d. events (snd (m w)) = events w @ d \<and> list_all is_fs_call d
                 \<and> prefix (written d) L \<and> (fst (m w) = Inr () \<longrightarrow> written d = L))"

definition manifest :: "string \<Rightarrow> string" where
  "manifest name = JSON_stringify (packageJson name)"

definition source_files :: "path \<Rightarrow> (path \<times> string) list" where
  "source_files dir =
     [(dir @ [''src'', ''app'', ''layout.tsx''], layoutContent),
      (dir @ [''src'', ''app'', ''page.tsx''], pageContent),
      (dir @ [''src'', ''styles'', ''globals.css''], globalCssContent)]"

fun dir_log :: "error + unit \<Rightarrow> event list" where
  "dir_log (Inl err) = [ConsoleError ''Error creating directory:'' err]"
| "dir_log (Inr u) = []"

definition gitlog :: "path \<Rightarrow> bool \<Rightarrow> event list \<Rightarrow> bool" where
  "gitlog dir ok glog =
     (if ok then glog = [CallWriteFile (dir @ [''.gitignore'']) gitignoreContent]
                \<or> (\<exists>err. glog = [CallWriteFile (dir @ [''.gitignore'']) gitignoreContent,
                                 ConsoleError ''Error initializing git:'' err])
      else glog = [ConsoleError ''Error initializing git:'' (ExitNonZero ''git init'')])"

definition is_file :: "fs \<Rightarrow> path \<Rightarrow> bool" where
  "is_file f p = (case f p of Some (File c) \<Rightarrow> True | _ \<Rightarrow> False)"

definition scaffolded :: "path \<Rightarrow> fs \<Rightarrow> bool" where
  "scaffolded dir f =
     (is_dir f dir
      \<and> is_file f (dir @ [''package.json''])
      \<and> f (dir @ [''public'']) = Some Dir
      \<and> f (dir @ [''src'']) = Some Dir
      \<and> f (dir @ [''src'', ''app'']) = Some Dir
      \<and> f (dir @ [''src'', ''components'']) = Some Dir
      \<and> f (dir @ [''src'', ''styles'']) = Some Dir
      \<and> is_file f (dir @ [''src'', ''app'', ''layout.tsx''])
      \<and> is_file f (dir @ [''src'', ''app'', ''page.tsx''])
      \<and> is_file f (dir @ [''src'', ''styles'', ''globals.css'']))"

text \<open>A small host: \<open>/home/user\<close> exists, nothing is refused, every command exits 0 and
  leaves the filesystem alone.\<close>

definition host_fs :: fs where
  "host_fs = [[''home''] \<mapsto> Dir, [''home'', ''user''] \<mapsto> Dir]"

definition quiet_env :: env where
  "quiet_env = \<lparr>cwd = [''home'', ''user''], denied = (\<lambda>op. False),
                 spawn = (\<lambda>cmd dir f. (True, f))\<rparr>"

text \<open>The same host where \<open>git init\<close> exits non-zero.\<close>

definition no_git_env :: env where
  "no_git_env = \<lparr>cwd = [''home'', ''user''], denied = (\<lambda>op. False),
                  spawn = (\<lambda>cmd dir f. (cmd \<noteq> ''git init'', f))\<rparr>"

text \<open>The same host where \<open>npm install\<close> exits non-zero.\<close>

definition no_npm_env :: env where
  "no_npm_env = \<lparr>cwd = [''home'', ''user''], denied = (\<lambda>op. False),
                  spawn = (\<lambda>cmd dir f. (cmd \<noteq> ''npm install'', f))\<rparr>"

text \<open>The same host refusing to create \<open>/home/user/app\<close>.\<close>

definition locked_env :: env where
  "locked_env = \<lparr>cwd = [''home'', ''user''],
                  denied = (\<lambda>op. op = Mkdir [''home'', ''user'', ''app'']),
                  spawn = (\<lambda>cmd dir f. (True, f))\<rparr>"

definition app_answers :: answers where
  "app_answers = \<lparr>entered_name = ''app'', chosen = BasicJavaScript\<rparr>"

text \<open>The questions a run has asked, in order.\<close>

fun prompts :: "event list \<Rightarrow> string list" where
  "prompts [] = []"
| "prompts (Prompt m # evs) = m # prompts evs"
| "prompts (ev # evs) = prompts evs"

text \<open>
  Reading JSON text (RFC 8259) as far as the values above go: strings, \<open>true\<close>,
  \<open>false\<close> and objects, with insignificant white space. A \<open>\u\<close> escape is read when
  it denotes an ASCII character.
\<close>

definition is_ws :: "char \<Rightarrow> bool" where
  "is_ws c = (c = CHR '' '' \<or> c = CHR 0x0A \<or> c = CHR 0x0D \<or> c = CHR 0x09)"

fun skip_ws :: "string \<Rightarrow> string" where
  "skip_ws [] = []"
| "skip_ws (c # cs) = (if is_ws c then skip_ws cs else c # cs)"

definition hex_val :: "char \<Rightarrow> nat option" where
  "hex_val c =
     (let n = (of_char c :: nat) in
      if 48 \<le> n \<and> n \<le> 57 then Some (n - 48)
      else if 97 \<le> n \<and> n \<le> 102 then Some (n - 87)
      else if 65 \<le> n \<and> n \<le> 70 then Some (n - 55)
      else None)"

definition unescape :: "char \<Rightarrow> char option" where
  "unescape d =
     (if d = CHR 0x22 \<or> d = CHR 0x5C \<or> d = CHR ''/'' then Some d
      else if d = CHR ''b'' then Some (CHR 0x08)
      else if d = CHR ''f'' then Some (CHR 0x0C)
      else if d = CHR ''n'' then Some (CHR 0x0A)
      else if d = CHR ''r'' then Some (CHR 0x0D)
      else if d = CHR ''t'' then Some (CHR 0x09)
      else None)"

definition push :: "char \<Rightarrow> (string \<times> string) option \<Rightarrow> (string \<times> string) option" where
  "push c r = (case r of None \<Rightarrow> None | Some (s, rest) \<Rightarrow> Some (c # s, rest))"

text \<open>The characters of a string literal after its opening quote, up to the closing one.\<close>

fun read_chars :: "string \<Rightarrow> (string \<times> string) option" where
  "read_chars [] = None"
| "read_chars (c # cs) =
     (if c = CHR 0x22 then Some ([], cs)
      else if c = CHR 0x5C then
        (case cs of
           [] \<Rightarrow> None
         | d # ds \<Rightarrow>
             if d = CHR ''u'' then
               (case ds of
                  h1 # h2 # h3 # h4 # rest \<Rightarrow>
                    (case (hex_val h1, hex_val h2, hex_val h3, hex_val h4) of
                       (Some a, Some b, Some x, Some y) \<Rightarrow>
                         if a = 0 \<and> b = 0 \<and> x < 8
                         then push (char_of (16 * x + y)) (read_chars rest)
                         else None
                     | _ \<Rightarrow> None)
                | _ \<Rightarrow> None)
             else (case unescape d of
                     None \<Rightarrow> None
                   | Some x \<Rightarrow> push x (read_chars ds)))
      else if (of_char c :: nat) < 32 then None
      else push c (read_chars cs))"

fun read_value :: "nat \<Rightarrow> string \<Rightarrow> (json \<times> string) option"
  and read_members :: "nat \<Rightarrow> string \<Rightarrow> ((string \<times> json) list \<times> string) option" where
  "read_value 0 s = None"
| "read_value (Suc n) s =
     (case s of
        [] \<Rightarrow> None
      | c # cs \<Rightarrow>
          if c = CHR 0x22 then
            (case read_chars cs of None \<Rightarrow> None | Some (x, rest) \<Rightarrow> Some (JString x, rest))
          else if take 4 s = ''true'' then Some (JBool True, drop 4 s)
          else if take 5 s = ''false'' then Some (JBool False, drop 5 s)
          else if c = CHR ''{'' then
            (case skip_ws cs of
               [] \<Rightarrow> None
             | d # ds \<Rightarrow>
                 if d = CHR ''}'' then Some (JObject [], ds)
                 else (case read_members n (d # ds) of
                         None \<Rightarrow> None
                       | Some (kvs, rest) \<Rightarrow> Some (JObject kvs, rest)))
          else None)"
| "read_members 0 s = None"
| "read_members (Suc n) s =
     (case s of
        [] \<Rightarrow> None
      | c # cs \<Rightarrow>
          if c \<noteq> CHR 0x22 then None
          else (case read_chars cs of
                  None \<Rightarrow> None
                | Some (k, r1) \<Rightarrow>
                    (case skip_ws r1 of
                       [] \<Rightarrow> None
                     | c2 # r2 \<Rightarrow>
                         if c2 \<noteq> CHR '':'' then None
                         else (case read_value n (skip_ws r2) of
                                 None \<Rightarrow> None
                               | Some (v, r3) \<Rightarrow>
                                   (case skip_ws r3 of
                                      [] \<Rightarrow> None
                                    | c4 # r4 \<Rightarrow>
                                        if c4 = CHR ''}'' then Some ([(k, v)], r4)
                                        else if c4 = CHR '','' then
                                          (case read_members n (skip_ws r4) of
                                             None \<Rightarrow> None
                                           | Some (kvs, r5) \<Rightarrow> Some ((k, v) # kvs, r5))
                                        else None)))))"

definition JSON_parse :: "string \<Rightarrow> json option" where
  "JSON_parse s =
     (case read_value (length s) (skip_ws s) of
        None \<Rightarrow> None
      | Some (v, rest) \<Rightarrow> if skip_ws rest = [] then Some v else None)"

text \<open>The fuel that reading a value takes: one unit for each value and each member.\<close>

fun cost :: "json \<Rightarrow> nat" where
  "cost (JString s) = 1"
| "cost (JBool b) = 1"
| "cost (JObject kvs) = Suc (sum_list (map (\<lambda>kv. Suc (cost (snd kv))) kvs))"

definition member_text :: "nat \<Rightarrow> string \<times> json \<Rightarrow> string" where
  "member_text j kv = json_quote (fst kv) @ '': '' @ stringify j (snd kv)"

definition separator :: "nat \<Rightarrow> string" where
  "separator j = CHR '','' # CHR 0x0A # replicate j (CHR '' '')"

section \<open>Auxiliary lemmas\<close>

lemma path_join_package: "path_join p ''package.json'' = p @ [''package.json'']"
  by (simp add: path_join_def join_step_def)

lemma path_join_gitignore: "path_join p ''.gitignore'' = p @ [''.gitignore'']"
  by (simp add: path_join_def join_step_def)

lemma path_join_layout: "path_join p ''src/app/layout.tsx'' = p @ [''src'', ''app'', ''layout.tsx'']"
  by (simp add: path_join_def join_step_def)

lemma path_join_page: "path_join p ''src/app/page.tsx'' = p @ [''src'', ''app'', ''page.tsx'']"
  by (simp add: path_join_def join_step_def)

lemma path_join_css: "path_join p ''src/styles/globals.css'' = p @ [''src'', ''styles'', ''globals.css'']"
  by (simp add: path_join_def join_step_def)

lemma path_join_public: "path_join p ''public'' = p @ [''public'']"
  by (simp add: path_join_def join_step_def)

lemma path_join_src_app: "path_join p ''src/app'' = p @ [''src'', ''app'']"
  by (simp add: path_join_def join_step_def)

lemma path_join_src_components: "path_join p ''src/components'' = p @ [''src'', ''components'']"
  by (simp add: path_join_def join_step_def)

lemma path_join_src_styles: "path_join p ''src/styles'' = p @ [''src'', ''styles'']"
  by (simp add: path_join_def join_step_def)

lemma path_join_empty: "path_join p [] = p"
  by (simp add: path_join_def join_step_def)

lemma path_join_dot: "path_join p ''.'' = p"
  by (simp add: path_join_def join_step_def)

lemma split_sep_plain: "CHR ''/'' \<notin> set s \<Longrightarrow> split_sep s = [s]"
  by (induction s) auto

lemma path_join_plain: "plain_segment s \<Longrightarrow> path_join p s = p @ [s]"
  by (simp add: plain_segment_def path_join_def join_step_def split_sep_plain)

lemma keeps_refl: "keeps f f"
  by (auto simp: keeps_def split: option.splits node.splits)

lemma keeps_trans: "keeps f g \<Longrightarrow> keeps g h \<Longrightarrow> keeps f h"
  unfolding keeps_def
  apply (intro allI)
  subgoal for p
    apply (erule_tac x=p in allE)+
    apply (auto split: option.splits node.splits)
    done
  done

lemma keeps_dir: "keeps f g \<Longrightarrow> f p = Some Dir \<Longrightarrow> g p = Some Dir"
  by (auto simp: keeps_def split: option.splits node.splits dest: spec[where x=p])

lemma keeps_file: "keeps f g \<Longrightarrow> f p = Some (File c) \<Longrightarrow> \<exists>c'. g p = Some (File c')"
  by (auto simp: keeps_def split: option.splits node.splits dest: spec[where x=p])

lemma keeps_is_dir: "keeps f g \<Longrightarrow> is_dir f p \<Longrightarrow> is_dir g p"
  by (auto simp: is_dir_def dest: keeps_dir)

lemma keeps_upd_new: "f q = None \<Longrightarrow> keeps f (f(q \<mapsto> x))"
  by (auto simp: keeps_def split: option.splits node.splits)

lemma keeps_upd_file: "f q \<noteq> Some Dir \<Longrightarrow> keeps f (f(q \<mapsto> File c))"
  by (auto simp: keeps_def split: option.splits node.splits)

lemma mkdir_chain_keeps: "keeps f (snd (mkdir_chain dn p qs f))"
proof (induction qs arbitrary: f)
  case Nil
  show ?case by (simp add: keeps_refl)
next
  case (Cons q qs)
  show ?case
  proof (cases "f q")
    case None
    show ?thesis
    proof (cases "dn (Mkdir q)")
      case True
      then show ?thesis using None by (simp add: keeps_refl)
    next
      case False
      have eq: "snd (mkdir_chain dn p (q # qs) f) = snd (mkdir_chain dn p qs (f(q \<mapsto> Dir)))"
        using None False by simp
      have k1: "keeps f (f(q \<mapsto> Dir))" by (rule keeps_upd_new) (rule None)
      have k2: "keeps (f(q \<mapsto> Dir)) (snd (mkdir_chain dn p qs (f(q \<mapsto> Dir))))" by (rule Cons)
      show ?thesis unfolding eq by (rule keeps_trans[OF k1 k2])
    qed
  next
    case (Some n)
    then show ?thesis using Cons[of f] by (cases n) (auto simp: keeps_refl)
  qed
qed

lemma write_node_keeps: "keeps f (snd (write_node dn p c f))"
  by (auto simp: write_node_def keeps_refl keeps_upd_file split: option.splits)

lemma blocked_None_iff: "blocked f qs = None \<longleftrightarrow> (\<forall>q\<in>set qs. f q = Some Dir)"
  by (induction qs) (auto split: option.splits node.splits)

text \<open>success of mkdir chain: all listed are dirs afterwards\<close>

lemma mkdir_chain_ok_dirs:
  "mkdir_chain dn p qs f = (Inr u, f') \<Longrightarrow> q \<in> set qs \<Longrightarrow> f' q = Some Dir"
proof (induction qs arbitrary: f)
  case Nil
  then show ?case by simp
next
  case (Cons a qs)
  show ?case
  proof (cases "f a")
    case None
    with Cons.prems have run: "mkdir_chain dn p qs (f(a \<mapsto> Dir)) = (Inr u, f')"
      by (auto split: if_splits)
    show ?thesis
    proof (cases "q = a")
      case True
      have "keeps (f(a \<mapsto> Dir)) f'" using mkdir_chain_keeps[of "f(a \<mapsto> Dir)" dn p qs] run by simp
      then show ?thesis using True by (auto dest: keeps_dir)
    next
      case False
      then show ?thesis using Cons.IH[OF run] Cons.prems(2) by simp
    qed
  next
    case (Some n)
    with Cons.prems have n: "n = Dir" and run: "mkdir_chain dn p qs f = (Inr u, f')"
      by (cases n; auto)+
    show ?thesis
    proof (cases "q = a")
      case True
      have "keeps f f'" using mkdir_chain_keeps[of f dn p qs] run by simp
      then show ?thesis using True Some n by (auto dest: keeps_dir)
    next
      case False
      then show ?thesis using Cons.IH[OF run] Cons.prems(2) by simp
    qed
  qed
qed

lemma mkdir_chain_all_dirs:
  "\<forall>q\<in>set qs. f q = Some Dir \<Longrightarrow> mkdir_chain dn p qs f = (Inr (), f)"
  by (induction qs) auto

lemma seq_Inr: "seq m k w = (Inr u, w') \<longleftrightarrow> (\<exists>w1. m w = (Inr (), w1) \<and> k w1 = (Inr u, w'))"
  by (auto simp: seq_def split: prod.splits sum.splits)

lemma io_keeps_seq: "io_keeps m \<Longrightarrow> io_keeps k \<Longrightarrow> io_keeps (seq m k)"
  unfolding io_keeps_def
proof (intro allI)
  fix w
  assume m: "\<forall>w. keeps (files w) (files (snd (m w)))" and k: "\<forall>w. keeps (files w) (files (snd (k w)))"
  obtain r w1 where mw: "m w = (r, w1)" by (cases "m w")
  show "keeps (files w) (files (snd (seq m k w)))"
  proof (cases r)
    case (Inl err)
    then show ?thesis using m[rule_format, of w] mw by (simp add: seq_def)
  next
    case (Inr u)
    then have "snd (seq m k w) = snd (k w1)" using mw by (simp add: seq_def)
    moreover have "keeps (files w) (files w1)" using m[rule_format, of w] mw by simp
    moreover have "keeps (files w1) (files (snd (k w1)))" using k by simp
    ultimately show ?thesis by (auto intro: keeps_trans)
  qed
qed

lemma replays_seq:
  assumes "replays m" "replays k" "io_keeps m" "io_keeps k"
  shows "replays (seq m k)"
  unfolding replays_def
proof (intro allI impI)
  fix w w2 g :: world and u :: unit
  assume run: "seq m k w = (Inr u, w2)" and kg: "keeps (files w2) (files g)"
  from run obtain w1 where mw: "m w = (Inr (), w1)" and kw: "k w1 = (Inr u, w2)"
    by (auto simp: seq_Inr)
  have "keeps (files w1) (files w2)" using assms(4) kw by (auto simp: io_keeps_def dest: spec[where x=w1])
  then have "keeps (files w1) (files g)" using kg by (rule keeps_trans)
  with assms(1) mw obtain g1 where mg: "m g = (Inr (), g1)" unfolding replays_def by blast
  have "keeps (files g) (files g1)" using assms(3) mg by (auto simp: io_keeps_def dest: spec[where x=g])
  with kg have "keeps (files w2) (files g1)" by (rule keeps_trans)
  with assms(2) kw obtain g2 where "k g1 = (Inr (), g2)" unfolding replays_def by blast
  with mg have "seq m k g = (Inr (), g2)" by (simp add: seq_def)
  then show "\<exists>g1. seq m k g = (Inr (), g1)" by blast
qed

lemma replays_total: "(\<And>w. \<exists>w'. m w = (Inr (), w')) \<Longrightarrow> replays m"
  unfolding replays_def by blast

lemma io_keeps_lift: "(\<And>w. files (g w) = files w) \<Longrightarrow> io_keeps (lift g)"
  by (simp add: io_keeps_def lift_def keeps_refl)

lemma replays_lift: "replays (lift g)"
  by (rule replays_total) (simp add: lift_def)

lemma files_emit [simp]: "files (emit ev w) = files w"
  by (simp add: emit_def)

lemma events_emit [simp]: "events (emit ev w) = events w @ [ev]"
  by (simp add: emit_def)

lemma io_keeps_mkdir: "io_keeps (fs_mkdir e p)"
  unfolding io_keeps_def
proof
  fix w :: world
  show "keeps (files w) (files (snd (fs_mkdir e p w)))"
    using mkdir_chain_keeps[of "files w" "denied e" p "tl (prefixes p)"]
    by (auto simp: fs_mkdir_def split: prod.splits)
qed

lemma io_keeps_writeFile: "io_keeps (fs_writeFile e p c)"
  unfolding io_keeps_def
proof
  fix w :: world
  show "keeps (files w) (files (snd (fs_writeFile e p c w)))"
    using write_node_keeps[of "files w" "denied e" p c]
    by (auto simp: fs_writeFile_def split: prod.splits)
qed

lemma io_keeps_execSync: "spawn_keeps e \<Longrightarrow> io_keeps (execSync e cmd dir)"
  unfolding io_keeps_def
proof
  fix w :: world
  assume "spawn_keeps e"
  then have "keeps (files w) (snd (spawn e cmd dir (files w)))"
    by (simp add: spawn_keeps_def)
  then show "keeps (files w) (files (snd (execSync e cmd dir w)))"
    by (auto simp: execSync_def split: prod.splits)
qed

lemma events_mkdir [simp]: "events (snd (fs_mkdir e p w)) = events w @ [CallMkdir p]"
  by (simp add: fs_mkdir_def split: prod.splits)

lemma events_writeFile [simp]: "events (snd (fs_writeFile e p c w)) = events w @ [CallWriteFile p c]"
  by (simp add: fs_writeFile_def split: prod.splits)

lemma events_execSync [simp]:
  "events (snd (execSync e cmd dir w)) = events w @ [CallExec cmd dir (fst (spawn e cmd dir (files w)))]"
  by (simp add: execSync_def split: prod.splits)

lemma execSync_result: "fst (execSync e cmd dir w) = (if fst (spawn e cmd dir (files w)) then Inr () else Inl (ExitNonZero cmd))"
  by (simp add: execSync_def split: prod.splits)

lemma mkdir_ok_dirs:
  assumes "fs_mkdir e p w = (Inr u, w1)" and "q \<in> set (tl (prefixes p))"
  shows "files w1 q = Some Dir"
proof -
  from assms(1) have "mkdir_chain (denied e) p (tl (prefixes p)) (files w) = (Inr u, files w1)"
    by (auto simp: fs_mkdir_def split: prod.splits)
  then show ?thesis using assms(2) by (rule mkdir_chain_ok_dirs)
qed

lemma in_tl_prefixes: "q \<in> set (tl (prefixes p)) \<longleftrightarrow> q \<noteq> [] \<and> prefix q p"
  by (cases p) (auto simp: prefix_Cons image_iff)

lemma replays_mkdir: "replays (fs_mkdir e p)"
  unfolding replays_def
proof (intro allI impI)
  fix w w1 g :: world and u :: unit
  assume run: "fs_mkdir e p w = (Inr u, w1)" and kg: "keeps (files w1) (files g)"
  have "\<forall>q\<in>set (tl (prefixes p)). files g q = Some Dir"
    using mkdir_ok_dirs[OF run] kg by (auto dest: keeps_dir)
  then have "mkdir_chain (denied e) p (tl (prefixes p)) (files g) = (Inr (), files g)"
    by (rule mkdir_chain_all_dirs)
  then show "\<exists>g1. fs_mkdir e p g = (Inr (), g1)"
    by (simp add: fs_mkdir_def)
qed

lemma writeFile_ok:
  assumes "fs_writeFile e p c w = (Inr u, w1)"
  shows "files w1 = (files w)(p \<mapsto> File c)" and "p \<noteq> []" and "files w p \<noteq> Some Dir"
    and "\<forall>q\<in>set (tl (prefixes (butlast p))). files w q = Some Dir"
    and "\<not> denied e (WriteFile p)"
  using assms
  by (auto simp: fs_writeFile_def write_node_def blocked_None_iff
           split: prod.splits if_splits option.splits)

lemma writeFile_ok_blocked:
  "fst (fs_writeFile e p c w) = Inr () \<longleftrightarrow>
     p \<noteq> [] \<and> files w p \<noteq> Some Dir
     \<and> blocked (files w) (tl (prefixes (butlast p))) = None
     \<and> \<not> denied e (WriteFile p)"
  by (auto simp: fs_writeFile_def write_node_def split: prod.splits if_splits option.splits)

lemma writeFile_ok_iff:
  "fst (fs_writeFile e p c w) = Inr () \<longleftrightarrow>
     p \<noteq> [] \<and> files w p \<noteq> Some Dir
     \<and> (\<forall>q\<in>set (tl (prefixes (butlast p))). files w q = Some Dir)
     \<and> \<not> denied e (WriteFile p)"
  unfolding writeFile_ok_blocked blocked_None_iff ..

lemma all_prefixes_is_dir:
  "\<forall>q\<in>set (tl (prefixes p)). f q = Some Dir \<Longrightarrow> is_dir f p"
  by (cases "p = []") (auto simp: is_dir_def in_tl_prefixes)

lemma replays_writeFile: "replays (fs_writeFile e p c)"
  unfolding replays_def
proof (intro allI impI)
  fix w w1 g :: world and u :: unit
  assume run: "fs_writeFile e p c w = (Inr u, w1)" and kg: "keeps (files w1) (files g)"
  note ok = writeFile_ok[OF run]
  have kw: "keeps (files w) (files w1)"
    using io_keeps_writeFile[of e p c] run by (auto simp: io_keeps_def dest!: spec[where x=w])
  have "files w1 p = Some (File c)" using ok(1) by simp
  then have "files g p \<noteq> Some Dir" using kg by (auto dest: keeps_file)
  moreover have "\<forall>q\<in>set (tl (prefixes (butlast p))). files g q = Some Dir"
    using ok(4) keeps_trans[OF kw kg] by (auto dest: keeps_dir)
  ultimately have "fst (fs_writeFile e p c g) = Inr ()"
    using ok(2,5) by (simp add: writeFile_ok_iff)
  then show "\<exists>g1. fs_writeFile e p c g = (Inr (), g1)"
    by (cases "fs_writeFile e p c g") auto
qed

lemmas path_join_consts = path_join_package path_join_gitignore path_join_layout path_join_page
  path_join_css path_join_public path_join_src_app path_join_src_components path_join_src_styles

lemma io_keeps_createPackageJson: "io_keeps (createPackageJson e dir name)"
  by (simp add: createPackageJson_def io_keeps_writeFile)

lemma replays_createPackageJson: "replays (createPackageJson e dir name)"
  by (simp add: createPackageJson_def replays_writeFile)

lemma io_keeps_mkdir_each: "io_keeps (mkdir_each e base dirs)"
  by (induction dirs) (simp_all add: io_keeps_lift io_keeps_seq io_keeps_mkdir)

lemma replays_mkdir_each: "replays (mkdir_each e base dirs)"
  by (induction dirs)
     (simp_all add: replays_lift replays_seq replays_mkdir io_keeps_mkdir io_keeps_mkdir_each)

lemma io_keeps_createProjectFiles: "io_keeps (createProjectFiles e dir)"
  by (simp add: createProjectFiles_def io_keeps_seq io_keeps_mkdir_each io_keeps_writeFile)

lemma replays_createProjectFiles: "replays (createProjectFiles e dir)"
  by (simp add: createProjectFiles_def replays_seq replays_mkdir_each replays_writeFile
                io_keeps_seq io_keeps_mkdir_each io_keeps_writeFile)

lemma initializeGit_files:
  "files (initializeGit e dir w) =
     files (snd (seq (execSync e ''git init'' dir)
                     (fs_writeFile e (path_join dir ''.gitignore'') gitignoreContent) w))"
  by (simp add: initializeGit_def split: prod.splits sum.splits)

lemma io_keeps_initializeGit: "spawn_keeps e \<Longrightarrow> io_keeps (lift (initializeGit e dir))"
  using io_keeps_seq[OF io_keeps_execSync[of e "''git init''" dir]
                        io_keeps_writeFile[of e "path_join dir ''.gitignore''" gitignoreContent]]
  by (simp add: io_keeps_def lift_def initializeGit_files)

lemma createProjectDirectory_files:
  "files (snd (createProjectDirectory e dir w)) = files (snd (fs_mkdir e dir w))"
  by (simp add: createProjectDirectory_def split: prod.splits sum.splits)

lemma io_keeps_directory_step: "io_keeps (directory_step e dir)"
  using io_keeps_mkdir[of e dir]
  by (simp add: io_keeps_def directory_step_def createProjectDirectory_files)

lemma replays_directory_step: "replays (directory_step e dir)"
  by (rule replays_total) (simp add: directory_step_def)

lemma try_block_seq:
  "try_block e dir name =
     seq (directory_step e dir)
    (seq (createPackageJson e dir name)
    (seq (createProjectFiles e dir)
    (seq (lift (initializeGit e dir))
    (seq (lift (emit (SpinnerText ''Installing dependencies...'')))
    (seq (execSync e ''npm install'' dir)
         (lift (emit (SpinnerSucceed name dir))))))))"
  by (rule ext) (simp add: try_block_def directory_step_def seq_def split: prod.splits)

lemma io_keeps_try_block: "spawn_keeps e \<Longrightarrow> io_keeps (try_block e dir name)"
  by (simp add: try_block_seq io_keeps_seq io_keeps_directory_step io_keeps_createPackageJson
        io_keeps_createProjectFiles io_keeps_initializeGit io_keeps_lift io_keeps_execSync)

lemma replays_npm: "npm_succeeds e \<Longrightarrow> replays (execSync e ''npm install'' dir)"
proof (rule replays_total)
  fix w :: world
  assume "npm_succeeds e"
  then have "fst (spawn e ''npm install'' dir (files w))" by (simp add: npm_succeeds_def)
  then have "fst (execSync e ''npm install'' dir w) = Inr ()" by (simp add: execSync_result)
  then show "\<exists>w'. execSync e ''npm install'' dir w = (Inr (), w')"
    by (cases "execSync e ''npm install'' dir w") auto
qed

lemma replays_try_block:
  assumes "spawn_keeps e" "npm_succeeds e"
  shows "replays (try_block e dir name)"
  unfolding try_block_seq
  by (intro replays_seq io_keeps_seq replays_directory_step replays_createPackageJson
        replays_createProjectFiles replays_lift replays_npm io_keeps_directory_step
        io_keeps_createPackageJson io_keeps_createProjectFiles io_keeps_initializeGit
        io_keeps_lift io_keeps_execSync assms files_emit)

lemma action_alt:
  "action e a f =
     (case try_block e (projectPath e a) (projectName a) (started f) of
        (Inr u, w') \<Rightarrow> \<lparr>exit_code = 0, final = w'\<rparr>
      | (Inl err, w') \<Rightarrow>
             \<lparr>exit_code = 1,
              final = emit (ProcessExit 1) (emit (ConsoleErrorRaw err)
                        (emit (SpinnerFail ''Failed to create project'') w'))\<rparr>)"
  by (simp add: action_def Let_def emit_def)

lemma action_success_iff:
  "exit_code (action e a f) = 0 \<longleftrightarrow>
     (\<exists>w'. try_block e (projectPath e a) (projectName a) (started f) = (Inr (), w'))"
  by (auto simp: action_alt split: prod.splits sum.splits)

lemma action_success_final:
  "try_block e (projectPath e a) (projectName a) (started f) = (Inr (), w')
     \<Longrightarrow> final (action e a f) = w'"
  by (auto simp: action_alt split: prod.splits sum.splits)

lemma action_keeps: "spawn_keeps e \<Longrightarrow> keeps f (files (final (action e a f)))"
  using io_keeps_try_block[of e "projectPath e a" "projectName a"]
  by (auto simp: action_alt io_keeps_def split: prod.splits sum.splits dest!: spec[where x="started f"])

lemma second_run_succeeds:
  assumes "spawn_keeps e" "npm_succeeds e" "exit_code (action e a f) = 0"
  shows "exit_code (action e a (files (final (action e a f)))) = 0"
proof -
  from assms(3) obtain w' where run: "try_block e (projectPath e a) (projectName a) (started f) = (Inr (), w')"
    by (auto simp: action_success_iff)
  then have fin: "final (action e a f) = w'" by (rule action_success_final)
  have "keeps (files w') (files (started (files w')))" by (simp add: keeps_refl)
  with replays_try_block[OF assms(1,2), of "projectPath e a" "projectName a"] run
  obtain g1 where "try_block e (projectPath e a) (projectName a) (started (files w')) = (Inr (), g1)"
    unfolding replays_def by blast
  then show ?thesis unfolding fin by (auto simp: action_success_iff)
qed

lemma written_append [simp]: "written (xs @ ys) = written xs @ written ys"
  by (induction xs rule: written.induct) auto

lemma written_mem: "CallWriteFile q c \<in> set evs \<longleftrightarrow> (q, c) \<in> set (written evs)"
  by (induction evs rule: written.induct) auto

lemma logs_mkdir: "logs (fs_mkdir e q) []"
  by (simp add: logs_def)

lemma logs_writeFile: "logs (fs_writeFile e q c) [(q, c)]"
  by (simp add: logs_def)

lemma logs_skip: "logs (lift (\<lambda>w. w)) []"
  by (simp add: logs_def lift_def)

lemma logs_seq:
  assumes "logs m L1" "logs k L2"
  shows "logs (seq m k) (L1 @ L2)"
  unfolding logs_def
proof
  fix w :: world
  obtain r w1 where mw: "m w = (r, w1)" by (cases "m w")
  from assms(1) obtain d1 where d1: "events w1 = events w @ d1" "list_all is_fs_call d1"
      "prefix (written d1) L1" "r = Inr () \<longrightarrow> written d1 = L1"
    unfolding logs_def using mw by (auto dest!: spec[where x=w])
  show "\<exists>d. events (snd (seq m k w)) = events w @ d \<and> list_all is_fs_call d
          \<and> prefix (written d) (L1 @ L2) \<and> (fst (seq m k w) = Inr () \<longrightarrow> written d = L1 @ L2)"
  proof (cases r)
    case (Inl err)
    then have "seq m k w = (Inl err, w1)" using mw by (simp add: seq_def)
    then show ?thesis using d1 by (auto intro!: exI[where x=d1] simp: prefix_prefix)
  next
    case (Inr u)
    then have s: "seq m k w = k w1" using mw by (simp add: seq_def)
    from assms(2) obtain d2 where d2: "events (snd (k w1)) = events w1 @ d2" "list_all is_fs_call d2"
        "prefix (written d2) L2" "fst (k w1) = Inr () \<longrightarrow> written d2 = L2"
      unfolding logs_def by (auto dest!: spec[where x=w1])
    have "written d1 = L1" using d1(4) Inr by simp
    then show ?thesis using d1 d2 s by (auto intro!: exI[where x="d1 @ d2"])
  qed
qed

lemma logs_mkdir_each: "logs (mkdir_each e base dirs) []"
  by (induction dirs) (auto simp: logs_skip dest: logs_seq[OF logs_mkdir])

lemma logs_createProjectFiles: "logs (createProjectFiles e dir) (source_files dir)"
proof -
  have "logs (createProjectFiles e dir) ([] @ [(dir @ [''src'', ''app'', ''layout.tsx''], layoutContent)]
          @ [(dir @ [''src'', ''app'', ''page.tsx''], pageContent)]
          @ [(dir @ [''src'', ''styles'', ''globals.css''], globalCssContent)])"
    unfolding createProjectFiles_def path_join_consts
    by (intro logs_seq logs_mkdir_each logs_writeFile)
  then show ?thesis by (simp add: source_files_def)
qed

lemma createProjectDirectory_result:
  "createProjectDirectory e dir w =
     (case fst (fs_mkdir e dir w) of
        Inl err \<Rightarrow> (False, emit (ConsoleError ''Error creating directory:'' err) (snd (fs_mkdir e dir w)))
      | Inr u \<Rightarrow> (True, snd (fs_mkdir e dir w)))"
  by (cases "fs_mkdir e dir w") (simp add: createProjectDirectory_def split: sum.splits)

lemma createProjectDirectory_events:
  "events (snd (createProjectDirectory e dir w))
     = events w @ CallMkdir dir # dir_log (fst (fs_mkdir e dir w))"
  by (cases "fst (fs_mkdir e dir w)") (simp_all add: createProjectDirectory_result)

lemma initializeGit_events:
  "\<exists>glog. events (initializeGit e dir w)
            = events w @ CallExec ''git init'' dir (fst (spawn e ''git init'' dir (files w))) # glog
         \<and> gitlog dir (fst (spawn e ''git init'' dir (files w))) glog"
proof (cases "fst (spawn e ''git init'' dir (files w))")
  case False
  define w1 where "w1 = snd (execSync e ''git init'' dir w)"
  have ex: "execSync e ''git init'' dir w = (Inl (ExitNonZero ''git init''), w1)"
    using False execSync_result[of e "''git init''" dir w] unfolding w1_def
    by (cases "execSync e ''git init'' dir w") simp
  have ev1: "events w1 = events w @ [CallExec ''git init'' dir False]"
    unfolding w1_def using False by simp
  have "initializeGit e dir w = emit (ConsoleError ''Error initializing git:'' (ExitNonZero ''git init'')) w1"
    using ex by (simp add: initializeGit_def seq_def)
  then show ?thesis using False ev1 by (simp add: gitlog_def)
next
  case True
  define w1 where "w1 = snd (execSync e ''git init'' dir w)"
  have ex: "execSync e ''git init'' dir w = (Inr (), w1)"
    using True execSync_result[of e "''git init''" dir w] unfolding w1_def
    by (cases "execSync e ''git init'' dir w") simp
  have ev1: "events w1 = events w @ [CallExec ''git init'' dir True]"
    unfolding w1_def using True by simp
  obtain r w2 where wr: "fs_writeFile e (dir @ [''.gitignore'']) gitignoreContent w1 = (r, w2)"
    by (cases "fs_writeFile e (dir @ [''.gitignore'']) gitignoreContent w1")
  have ev2: "events w2 = events w1 @ [CallWriteFile (dir @ [''.gitignore'']) gitignoreContent]"
    using events_writeFile[of e "dir @ [''.gitignore'']" gitignoreContent w1] wr by simp
  show ?thesis
  proof (cases r)
    case (Inl err)
    then have "initializeGit e dir w = emit (ConsoleError ''Error initializing git:'' err) w2"
      using ex wr by (simp add: initializeGit_def seq_def path_join_consts)
    then show ?thesis using True ev1 ev2 by (simp add: gitlog_def)
  next
    case (Inr u)
    then have "initializeGit e dir w = w2"
      using ex wr by (simp add: initializeGit_def seq_def path_join_consts)
    then show ?thesis using True ev1 ev2 by (simp add: gitlog_def)
  qed
qed

lemma keeps_is_file: "keeps f g \<Longrightarrow> is_file f p \<Longrightarrow> is_file g p"
  by (auto simp: is_file_def split: option.splits node.splits dest: keeps_file keeps_dir)

lemma initializeGit_gitignore:
  assumes "events (initializeGit e dir w)
             = events w @ [CallExec ''git init'' dir True, CallWriteFile (dir @ [''.gitignore'']) gitignoreContent]"
  shows "is_file (files (initializeGit e dir w)) (dir @ [''.gitignore''])"
proof -
  obtain r1 w1 where ex: "execSync e ''git init'' dir w = (r1, w1)" by (cases "execSync e ''git init'' dir w")
  have ev1: "events w1 = events w @ [CallExec ''git init'' dir (fst (spawn e ''git init'' dir (files w)))]"
    using events_execSync[of e "''git init''" dir w] ex by simp
  show ?thesis
  proof (cases r1)
    case (Inl err)
    then have "initializeGit e dir w = emit (ConsoleError ''Error initializing git:'' err) w1"
      using ex by (simp add: initializeGit_def seq_def)
    then show ?thesis using assms ev1 by simp
  next
    case (Inr u)
    obtain r2 w2 where wr: "fs_writeFile e (dir @ [''.gitignore'']) gitignoreContent w1 = (r2, w2)"
      by (cases "fs_writeFile e (dir @ [''.gitignore'']) gitignoreContent w1")
    have ev2: "events w2 = events w1 @ [CallWriteFile (dir @ [''.gitignore'']) gitignoreContent]"
      using events_writeFile[of e "dir @ [''.gitignore'']" gitignoreContent w1] wr by simp
    show ?thesis
    proof (cases r2)
      case (Inl err)
      then have "initializeGit e dir w = emit (ConsoleError ''Error initializing git:'' err) w2"
        using ex wr Inr by (simp add: initializeGit_def seq_def path_join_consts)
      then show ?thesis using assms ev1 ev2 by simp
    next
      case Inr2: (Inr u2)
      then have "initializeGit e dir w = w2"
        using ex wr Inr by (simp add: initializeGit_def seq_def path_join_consts)
      moreover have "files w2 = (files w1)(dir @ [''.gitignore''] \<mapsto> File gitignoreContent)"
        using writeFile_ok(1)[of e "dir @ [''.gitignore'']" gitignoreContent w1 u2 w2] wr Inr2 by simp
      ultimately show ?thesis by (simp add: is_file_def)
    qed
  qed
qed

lemma events_writeFile_eq:
  "fs_writeFile e p c w = (r, w') \<Longrightarrow> events w' = events w @ [CallWriteFile p c]"
  by (auto simp: fs_writeFile_def split: prod.splits)

lemma try_block_cases [case_names early late]:
  obtains
    (early) elog d err w' where
      "try_block e dir name w = (Inl err, w')"
      "events w' = events w @ CallMkdir dir # elog
                     @ CallWriteFile (dir @ [''package.json'']) (manifest name) # d"
      "elog = dir_log (fst (fs_mkdir e dir w))" "list_all is_fs_call d"
      "prefix (written d) (source_files dir)"
  | (late) elog d okg glog okn w3 w' where
      "try_block e dir name w = (if okn then Inr () else Inl (ExitNonZero ''npm install''), w')"
      "events w' = events w @ CallMkdir dir # elog
                     @ CallWriteFile (dir @ [''package.json'']) (manifest name) # d
                     @ CallExec ''git init'' dir okg # glog
                     @ [SpinnerText ''Installing dependencies...'', CallExec ''npm install'' dir okn]
                     @ (if okn then [SpinnerSucceed name dir] else [])"
      "elog = dir_log (fst (fs_mkdir e dir w))" "list_all is_fs_call d"
      "written d = source_files dir" "gitlog dir okg glog"
      "seq (createPackageJson e dir name) (createProjectFiles e dir)
           (snd (createProjectDirectory e dir w)) = (Inr (), w3)"
      "spawn_keeps e \<Longrightarrow> keeps (files w3) (files w')"
      "spawn_keeps e \<Longrightarrow> okg \<Longrightarrow> glog = [CallWriteFile (dir @ [''.gitignore'']) gitignoreContent]
         \<Longrightarrow> is_file (files w') (dir @ [''.gitignore''])"
proof -
  define w1 where "w1 = snd (createProjectDirectory e dir w)"
  define elog where "elog = dir_log (fst (fs_mkdir e dir w))"
  have elog: "events w1 = events w @ CallMkdir dir # elog" "elog = dir_log (fst (fs_mkdir e dir w))"
    using createProjectDirectory_events[of e dir w] unfolding w1_def elog_def by simp_all
  obtain rA wA where A: "createPackageJson e dir name w1 = (rA, wA)"
    by (cases "createPackageJson e dir name w1")
  have evA: "events wA = events w1 @ [CallWriteFile (dir @ [''package.json'']) (manifest name)]"
    using A unfolding createPackageJson_def path_join_consts manifest_def
    by (rule events_writeFile_eq)
  let ?rest = "seq (lift (initializeGit e dir))
         (seq (lift (emit (SpinnerText ''Installing dependencies...'')))
         (seq (execSync e ''npm install'' dir)
              (lift (emit (SpinnerSucceed name dir)))))"
  have tb: "try_block e dir name w
      = seq (createPackageJson e dir name) (seq (createProjectFiles e dir) ?rest) w1"
    unfolding w1_def by (simp add: try_block_def split: prod.splits)
  show ?thesis
  proof (cases rA)
    case (Inl err)
    then have "try_block e dir name w = (Inl err, wA)" using tb A by (simp add: seq_def)
    moreover have "events wA = events w @ CallMkdir dir # elog
                     @ CallWriteFile (dir @ [''package.json'']) (manifest name) # []"
      using evA elog by simp
    ultimately show ?thesis using elog(2) by (rule early) simp_all
  next
    case (Inr uA)
    obtain rB wB where B: "createProjectFiles e dir wA = (rB, wB)"
      by (cases "createProjectFiles e dir wA")
    obtain d where d: "events wB = events wA @ d" "list_all is_fs_call d"
        "prefix (written d) (source_files dir)" "rB = Inr () \<longrightarrow> written d = source_files dir"
      using logs_createProjectFiles[of e dir] B unfolding logs_def
      by (auto dest!: spec[where x=wA])
    have evB: "events wB = events w @ CallMkdir dir # elog
                     @ CallWriteFile (dir @ [''package.json'']) (manifest name) # d"
      using d(1) evA elog by simp
    show ?thesis
    proof (cases rB)
      case (Inl err)
      then have "try_block e dir name w = (Inl err, wB)" using tb A B Inr by (simp add: seq_def)
      then show ?thesis using evB elog(2) d(2,3) by (rule early)
    next
      case InrB: (Inr uB)
      define wG where "wG = initializeGit e dir wB"
      define okg where "okg = fst (spawn e ''git init'' dir (files wB))"
      obtain glog where glog: "events wG = events wB @ CallExec ''git init'' dir okg # glog"
          "gitlog dir okg glog"
        using initializeGit_events[of e dir wB] unfolding wG_def okg_def by blast
      define wT where "wT = emit (SpinnerText ''Installing dependencies...'') wG"
      define okn where "okn = fst (spawn e ''npm install'' dir (files wT))"
      define wN where "wN = snd (execSync e ''npm install'' dir wT)"
      have N: "execSync e ''npm install'' dir wT = (if okn then Inr () else Inl (ExitNonZero ''npm install''), wN)"
        using execSync_result[of e "''npm install''" dir wT] unfolding okn_def wN_def
        by (cases "execSync e ''npm install'' dir wT") simp
      have evN: "events wN = events wT @ [CallExec ''npm install'' dir okn]"
        unfolding wN_def okn_def by simp
      define w' where "w' = (if okn then emit (SpinnerSucceed name dir) wN else wN)"
      have rest: "?rest wB = (if okn then Inr () else Inl (ExitNonZero ''npm install''), w')"
        using N unfolding w'_def wT_def wG_def by (simp add: seq_def lift_def)
      have run: "try_block e dir name w = (if okn then Inr () else Inl (ExitNonZero ''npm install''), w')"
        using tb A B Inr InrB rest by (simp add: seq_def)
      have ev: "events w' = events w @ CallMkdir dir # elog
                     @ CallWriteFile (dir @ [''package.json'']) (manifest name) # d
                     @ CallExec ''git init'' dir okg # glog
                     @ [SpinnerText ''Installing dependencies...'', CallExec ''npm install'' dir okn]
                     @ (if okn then [SpinnerSucceed name dir] else [])"
        unfolding w'_def using evN evB glog(1) by (simp add: wT_def)
      have wd: "written d = source_files dir" using d(4) InrB by simp
      have s23: "seq (createPackageJson e dir name) (createProjectFiles e dir)
           (snd (createProjectDirectory e dir w)) = (Inr (), wB)"
        using A B Inr InrB unfolding w1_def[symmetric] by (simp add: seq_def)
      have files': "files w' = files wN" unfolding w'_def by simp
      have k: "keeps (files wB) (files w')" if sk: "spawn_keeps e"
      proof -
        have "keeps (files wB) (files wG)"
          using io_keeps_initializeGit[OF sk, of dir] unfolding wG_def
          by (auto simp: io_keeps_def lift_def dest!: spec[where x=wB])
        moreover have "keeps (files wT) (files wN)"
          using io_keeps_execSync[OF sk, of "''npm install''" dir] unfolding wN_def
          by (auto simp: io_keeps_def dest!: spec[where x=wT])
        ultimately show ?thesis unfolding files' by (auto simp: wT_def intro: keeps_trans)
      qed
      have gi: "is_file (files w') (dir @ [''.gitignore''])"
        if sk: "spawn_keeps e" and "okg" and g: "glog = [CallWriteFile (dir @ [''.gitignore'']) gitignoreContent]"
      proof -
        have "is_file (files wG) (dir @ [''.gitignore''])"
          unfolding wG_def using glog(1) that(2) g
          by (intro initializeGit_gitignore) (simp add: wG_def)
        moreover have "keeps (files wT) (files wN)"
          using io_keeps_execSync[OF sk, of "''npm install''" dir] unfolding wN_def
          by (auto simp: io_keeps_def dest!: spec[where x=wT])
        ultimately show ?thesis unfolding files' by (auto simp: wT_def intro: keeps_is_file)
      qed
      show ?thesis using run ev elog(2) d(2) wd glog(2) s23 k gi by (rule late)
    qed
  qed
qed

lemma keeps_scaffolded: "keeps f g \<Longrightarrow> scaffolded dir f \<Longrightarrow> scaffolded dir g"
  unfolding scaffolded_def
  by (auto intro: keeps_is_dir keeps_is_file keeps_dir)

lemma mkdir_step:
  assumes "fs_mkdir e p w = (Inr u, w1)"
  shows "keeps (files w) (files w1)" and "\<And>q. q \<noteq> [] \<Longrightarrow> prefix q p \<Longrightarrow> files w1 q = Some Dir"
proof -
  show "keeps (files w) (files w1)"
    using io_keeps_mkdir[of e p] assms by (auto simp: io_keeps_def dest!: spec[where x=w])
  show "files w1 q = Some Dir" if "q \<noteq> []" "prefix q p" for q
    using mkdir_ok_dirs[OF assms, of q] that by (simp add: in_tl_prefixes)
qed

lemma write_step:
  assumes "fs_writeFile e p c w = (Inr u, w1)"
  shows "keeps (files w) (files w1)" and "is_file (files w1) p" and "is_dir (files w1) (butlast p)"
proof -
  show k: "keeps (files w) (files w1)"
    using io_keeps_writeFile[of e p c] assms by (auto simp: io_keeps_def dest!: spec[where x=w])
  show "is_file (files w1) p" using writeFile_ok(1)[OF assms] by (simp add: is_file_def)
  show "is_dir (files w1) (butlast p)"
    using all_prefixes_is_dir[OF writeFile_ok(4)[OF assms]] k by (rule keeps_is_dir[rotated])
qed

lemma steps_scaffolded:
  assumes "seq (createPackageJson e dir name) (createProjectFiles e dir) w = (Inr u, w3)"
  shows "scaffolded dir (files w3)"
proof -
  from assms obtain wA m1 m2 m3 m4 wL wP where
    A: "fs_writeFile e (dir @ [''package.json'']) (JSON_stringify (packageJson name)) w = (Inr (), wA)" and
    M1: "fs_mkdir e (dir @ [''public'']) wA = (Inr (), m1)" and
    M2: "fs_mkdir e (dir @ [''src'', ''app'']) m1 = (Inr (), m2)" and
    M3: "fs_mkdir e (dir @ [''src'', ''components'']) m2 = (Inr (), m3)" and
    M4: "fs_mkdir e (dir @ [''src'', ''styles'']) m3 = (Inr (), m4)" and
    L: "fs_writeFile e (dir @ [''src'', ''app'', ''layout.tsx'']) layoutContent m4 = (Inr (), wL)" and
    P: "fs_writeFile e (dir @ [''src'', ''app'', ''page.tsx'']) pageContent wL = (Inr (), wP)" and
    C: "fs_writeFile e (dir @ [''src'', ''styles'', ''globals.css'']) globalCssContent wP = (Inr u, w3)"
    by (auto simp: createPackageJson_def createProjectFiles_def directories_def seq_Inr lift_def
                   path_join_consts)
  note kA = write_step(1)[OF A] and k1 = mkdir_step(1)[OF M1] and k2 = mkdir_step(1)[OF M2]
    and k3 = mkdir_step(1)[OF M3] and k4 = mkdir_step(1)[OF M4] and kL = write_step(1)[OF L]
    and kP = write_step(1)[OF P] and kC = write_step(1)[OF C]
  have tP: "keeps (files wP) (files w3)" by (rule kC)
  have tL: "keeps (files wL) (files w3)" by (rule keeps_trans[OF kP tP])
  have t4: "keeps (files m4) (files w3)" by (rule keeps_trans[OF kL tL])
  have t3: "keeps (files m3) (files w3)" by (rule keeps_trans[OF k4 t4])
  have t2: "keeps (files m2) (files w3)" by (rule keeps_trans[OF k3 t3])
  have t1: "keeps (files m1) (files w3)" by (rule keeps_trans[OF k2 t2])
  have tA: "keeps (files wA) (files w3)" by (rule keeps_trans[OF k1 t1])
  have "is_dir (files wA) dir" using write_step(3)[OF A] by simp
  then have c1: "is_dir (files w3) dir" using tA by (rule keeps_is_dir[rotated])
  have c2: "is_file (files w3) (dir @ [''package.json''])"
    using write_step(2)[OF A] tA by (rule keeps_is_file[rotated])
  have "files m1 (dir @ [''public'']) = Some Dir" by (rule mkdir_step(2)[OF M1]) simp_all
  then have c3: "files w3 (dir @ [''public'']) = Some Dir" using t1 by (rule keeps_dir[rotated])
  have "files m2 (dir @ [''src'']) = Some Dir" by (rule mkdir_step(2)[OF M2]) simp_all
  then have c4: "files w3 (dir @ [''src'']) = Some Dir" using t2 by (rule keeps_dir[rotated])
  have "files m2 (dir @ [''src'', ''app'']) = Some Dir" by (rule mkdir_step(2)[OF M2]) simp_all
  then have c5: "files w3 (dir @ [''src'', ''app'']) = Some Dir" using t2 by (rule keeps_dir[rotated])
  have "files m3 (dir @ [''src'', ''components'']) = Some Dir" by (rule mkdir_step(2)[OF M3]) simp_all
  then have c6: "files w3 (dir @ [''src'', ''components'']) = Some Dir" using t3 by (rule keeps_dir[rotated])
  have "files m4 (dir @ [''src'', ''styles'']) = Some Dir" by (rule mkdir_step(2)[OF M4]) simp_all
  then have c7: "files w3 (dir @ [''src'', ''styles'']) = Some Dir" using t4 by (rule keeps_dir[rotated])
  have c8: "is_file (files w3) (dir @ [''src'', ''app'', ''layout.tsx''])"
    using write_step(2)[OF L] tL by (rule keeps_is_file[rotated])
  have c9: "is_file (files w3) (dir @ [''src'', ''app'', ''page.tsx''])"
    using write_step(2)[OF P] tP by (rule keeps_is_file[rotated])
  have c10: "is_file (files w3) (dir @ [''src'', ''styles'', ''globals.css''])"
    by (rule write_step(2)[OF C])
  show ?thesis unfolding scaffolded_def using c1 c2 c3 c4 c5 c6 c7 c8 c9 c10 by simp
qed

lemma fs_mkdir_result:
  "fst (fs_mkdir e p w) = fst (mkdir_chain (denied e) p (tl (prefixes p)) (files w))"
  by (simp add: fs_mkdir_def split: prod.splits)

lemma action_cases [case_names early late]:
  obtains
    (early) d err where
      "exit_code (action e a f) = 1"
      "events (final (action e a f)) = events (started f) @ CallMkdir (projectPath e a)
           # dir_log (fst (mkdir_chain (denied e) (projectPath e a) (tl (prefixes (projectPath e a))) f))
           @ CallWriteFile (projectPath e a @ [''package.json'']) (manifest (projectName a)) # d
           @ [SpinnerFail ''Failed to create project'', ConsoleErrorRaw err, ProcessExit 1]"
      "list_all is_fs_call d" "prefix (written d) (source_files (projectPath e a))"
  | (late) d okg glog okn w3 where
      "exit_code (action e a f) = (if okn then 0 else 1)"
      "events (final (action e a f)) = events (started f) @ CallMkdir (projectPath e a)
           # dir_log (fst (mkdir_chain (denied e) (projectPath e a) (tl (prefixes (projectPath e a))) f))
           @ CallWriteFile (projectPath e a @ [''package.json'']) (manifest (projectName a)) # d
           @ CallExec ''git init'' (projectPath e a) okg # glog
           @ [SpinnerText ''Installing dependencies...'', CallExec ''npm install'' (projectPath e a) okn]
           @ (if okn then [SpinnerSucceed (projectName a) (projectPath e a)]
              else [SpinnerFail ''Failed to create project'',
                    ConsoleErrorRaw (ExitNonZero ''npm install''), ProcessExit 1])"
      "list_all is_fs_call d" "written d = source_files (projectPath e a)"
      "gitlog (projectPath e a) okg glog"
      "spawn_keeps e \<Longrightarrow> scaffolded (projectPath e a) (files (final (action e a f)))"
      "spawn_keeps e \<Longrightarrow> okg
         \<Longrightarrow> glog = [CallWriteFile (projectPath e a @ [''.gitignore'']) gitignoreContent]
         \<Longrightarrow> is_file (files (final (action e a f))) (projectPath e a @ [''.gitignore''])"
proof (rule try_block_cases[of e "projectPath e a" "projectName a" "started f"])
  fix elog d err w'
  assume early: "try_block e (projectPath e a) (projectName a) (started f) = (Inl err, w')"
      "events w' = events (started f) @ CallMkdir (projectPath e a) # elog
                     @ CallWriteFile (projectPath e a @ [''package.json'']) (manifest (projectName a)) # d"
      "elog = dir_log (fst (fs_mkdir e (projectPath e a) (started f)))" "list_all is_fs_call d"
      "prefix (written d) (source_files (projectPath e a))"
  have "exit_code (action e a f) = 1" using early(1) by (simp add: action_alt)
  moreover have "events (final (action e a f)) = events (started f) @ CallMkdir (projectPath e a)
           # dir_log (fst (mkdir_chain (denied e) (projectPath e a) (tl (prefixes (projectPath e a))) f))
           @ CallWriteFile (projectPath e a @ [''package.json'']) (manifest (projectName a)) # d
           @ [SpinnerFail ''Failed to create project'', ConsoleErrorRaw err, ProcessExit 1]"
    using early(1,2,3) by (simp add: action_alt fs_mkdir_result)
  ultimately show ?thesis using early(4,5) by (rule that(1))
next
  fix elog d okg glog okn w3 w'
  assume late: "try_block e (projectPath e a) (projectName a) (started f)
         = (if okn then Inr () else Inl (ExitNonZero ''npm install''), w')"
      "events w' = events (started f) @ CallMkdir (projectPath e a) # elog
                     @ CallWriteFile (projectPath e a @ [''package.json'']) (manifest (projectName a)) # d
                     @ CallExec ''git init'' (projectPath e a) okg # glog
                     @ [SpinnerText ''Installing dependencies...'', CallExec ''npm install'' (projectPath e a) okn]
                     @ (if okn then [SpinnerSucceed (projectName a) (projectPath e a)] else [])"
      "elog = dir_log (fst (fs_mkdir e (projectPath e a) (started f)))" "list_all is_fs_call d"
      "written d = source_files (projectPath e a)" "gitlog (projectPath e a) okg glog"
      "seq (createPackageJson e (projectPath e a) (projectName a)) (createProjectFiles e (projectPath e a))
           (snd (createProjectDirectory e (projectPath e a) (started f))) = (Inr (), w3)"
      "spawn_keeps e \<Longrightarrow> keeps (files w3) (files w')"
      "spawn_keeps e \<Longrightarrow> okg \<Longrightarrow> glog = [CallWriteFile (projectPath e a @ [''.gitignore'']) gitignoreContent]
         \<Longrightarrow> is_file (files w') (projectPath e a @ [''.gitignore''])"
  have fin: "final (action e a f) = (if okn then w' else
      emit (ProcessExit 1) (emit (ConsoleErrorRaw (ExitNonZero ''npm install''))
                        (emit (SpinnerFail ''Failed to create project'') w')))"
    using late(1) by (simp add: action_alt)
  have files_fin: "files (final (action e a f)) = files w'" unfolding fin by simp
  have c1: "exit_code (action e a f) = (if okn then 0 else 1)" using late(1) by (simp add: action_alt)
  have c2: "events (final (action e a f)) = events (started f) @ CallMkdir (projectPath e a)
           # dir_log (fst (mkdir_chain (denied e) (projectPath e a) (tl (prefixes (projectPath e a))) f))
           @ CallWriteFile (projectPath e a @ [''package.json'']) (manifest (projectName a)) # d
           @ CallExec ''git init'' (projectPath e a) okg # glog
           @ [SpinnerText ''Installing dependencies...'', CallExec ''npm install'' (projectPath e a) okn]
           @ (if okn then [SpinnerSucceed (projectName a) (projectPath e a)]
              else [SpinnerFail ''Failed to create project'',
                    ConsoleErrorRaw (ExitNonZero ''npm install''), ProcessExit 1])"
    unfolding fin using late(2,3) by (simp add: fs_mkdir_result)
  have c3: "scaffolded (projectPath e a) (files (final (action e a f)))" if "spawn_keeps e"
    unfolding files_fin using late(8)[OF that] steps_scaffolded[OF late(7)]
    by (rule keeps_scaffolded)
  have c4: "is_file (files (final (action e a f))) (projectPath e a @ [''.gitignore''])"
    if "spawn_keeps e" "okg" "glog = [CallWriteFile (projectPath e a @ [''.gitignore'']) gitignoreContent]"
    unfolding files_fin using that by (rule late(9))
  show ?thesis using c1 c2 late(4,5,6) c3 c4 by (rule that(2))
qed

lemma spawn_keeps_quiet: "spawn_keeps quiet_env"
  by (simp add: spawn_keeps_def quiet_env_def keeps_refl)

lemma npm_succeeds_quiet: "npm_succeeds quiet_env"
  by (simp add: npm_succeeds_def quiet_env_def)

lemma quiet_run_exit: "exit_code (action quiet_env app_answers host_fs) = 0"
  by code_simp

lemma chain_fail_stuck:
  "mkdir_chain dn p qs f = (Inl err, f1) \<Longrightarrow> \<exists>q\<in>set qs. f1 q \<noteq> Some Dir"
proof (induction qs arbitrary: f)
  case Nil
  then show ?case by simp
next
  case (Cons a qs)
  show ?case
  proof (cases "f a")
    case None
    show ?thesis
    proof (cases "dn (Mkdir a)")
      case True
      then have "f1 = f" using Cons.prems None by simp
      then show ?thesis using None by simp
    next
      case False
      then have "mkdir_chain dn p qs (f(a \<mapsto> Dir)) = (Inl err, f1)"
        using Cons.prems None by simp
      then show ?thesis using Cons.IH by auto
    qed
  next
    case (Some n)
    show ?thesis
    proof (cases n)
      case Dir
      then have "mkdir_chain dn p qs f = (Inl err, f1)" using Cons.prems Some by simp
      then show ?thesis using Cons.IH by auto
    next
      case (File c)
      then have "f1 = f" using Cons.prems Some by simp
      then show ?thesis using Some File by simp
    qed
  qed
qed

lemma blocked_codes: "blocked f qs = Some code \<Longrightarrow> code = ENOENT \<or> code = ENOTDIR"
  by (induction qs) (auto split: option.splits node.splits)

lemma failed_mkdir_blocks_write:
  assumes fail: "mkdir_chain dn dir (tl (prefixes dir)) f = (Inl err, f1)"
  shows "\<exists>code. (code = ENOENT \<or> code = ENOTDIR)
           \<and> write_node dn (dir @ [x]) c f1 = (Inl (SystemError code (WriteFile (dir @ [x]))), f1)"
proof -
  have "blocked f1 (tl (prefixes dir)) \<noteq> None"
    using chain_fail_stuck[OF fail] by (simp add: blocked_None_iff)
  then obtain code where code: "blocked f1 (tl (prefixes dir)) = Some code" by auto
  then have "write_node dn (dir @ [x]) c f1 = (Inl (SystemError code (WriteFile (dir @ [x]))), f1)"
    by (simp add: write_node_def)
  then show ?thesis using blocked_codes[OF code] by blast
qed

lemma failed_mkdir_run:
  assumes fail: "fst (mkdir_chain (denied e) (projectPath e a) (tl (prefixes (projectPath e a))) f) = Inl err"
  shows "\<exists>code. (code = ENOENT \<or> code = ENOTDIR)
         \<and> exit_code (action e a f) = 1
         \<and> events (final (action e a f)) = events (started f) @
           [CallMkdir (projectPath e a), ConsoleError ''Error creating directory:'' err,
            CallWriteFile (projectPath e a @ [''package.json'']) (manifest (projectName a)),
            SpinnerFail ''Failed to create project'',
            ConsoleErrorRaw (SystemError code (WriteFile (projectPath e a @ [''package.json'']))),
            ProcessExit 1]"
proof -
  define f1 where "f1 = snd (mkdir_chain (denied e) (projectPath e a) (tl (prefixes (projectPath e a))) f)"
  have ch: "mkdir_chain (denied e) (projectPath e a) (tl (prefixes (projectPath e a))) f = (Inl err, f1)"
    using fail unfolding f1_def
    by (cases "mkdir_chain (denied e) (projectPath e a) (tl (prefixes (projectPath e a))) f") simp
  define w1 where "w1 = \<lparr>files = f1, events = events (started f) @ [CallMkdir (projectPath e a),
       ConsoleError ''Error creating directory:'' err]\<rparr>"
  have cpd: "createProjectDirectory e (projectPath e a) (started f) = (False, w1)"
    using ch by (simp add: createProjectDirectory_def fs_mkdir_def w1_def emit_def)
  define w2 where "w2 = \<lparr>files = f1, events = events w1 @
      [CallWriteFile (projectPath e a @ [''package.json'']) (manifest (projectName a))]\<rparr>"
  obtain code where code: "code = ENOENT \<or> code = ENOTDIR"
    and wr: "write_node (denied e) (projectPath e a @ [''package.json'']) (manifest (projectName a)) f1
               = (Inl (SystemError code (WriteFile (projectPath e a @ [''package.json'']))), f1)"
    using failed_mkdir_blocks_write[OF ch] by blast
  have A: "createPackageJson e (projectPath e a) (projectName a) w1
             = (Inl (SystemError code (WriteFile (projectPath e a @ [''package.json'']))), w2)"
    using wr
    by (simp add: createPackageJson_def fs_writeFile_def path_join_consts manifest_def w1_def w2_def)
  have tb: "try_block e (projectPath e a) (projectName a) (started f)
             = (Inl (SystemError code (WriteFile (projectPath e a @ [''package.json'']))), w2)"
    using cpd A by (simp add: try_block_def seq_def)
  have "exit_code (action e a f) = 1" using tb by (simp add: action_alt)
  moreover have "events (final (action e a f)) = events (started f) @
           [CallMkdir (projectPath e a), ConsoleError ''Error creating directory:'' err,
            CallWriteFile (projectPath e a @ [''package.json'']) (manifest (projectName a)),
            SpinnerFail ''Failed to create project'',
            ConsoleErrorRaw (SystemError code (WriteFile (projectPath e a @ [''package.json'']))),
            ProcessExit 1]"
    using tb by (simp add: action_alt w2_def w1_def)
  ultimately show ?thesis using code by blast
qed

lemma prompts_append [simp]: "prompts (xs @ ys) = prompts xs @ prompts ys"
  by (induction xs rule: prompts.induct) auto

lemma prompts_fs_calls: "list_all is_fs_call d \<Longrightarrow> prompts d = []"
  by (induction d rule: prompts.induct) auto

lemma prompts_dir_log [simp]: "prompts (dir_log r) = []"
  by (cases r) auto

lemma prompts_gitlog: "gitlog dir ok glog \<Longrightarrow> prompts glog = []"
  by (auto simp: gitlog_def split: if_splits)

lemma dir_log_mem:
  "ev \<in> set (dir_log r) \<longleftrightarrow> (\<exists>err. r = Inl err \<and> ev = ConsoleError ''Error creating directory:'' err)"
  by (cases r) auto

lemma written_dir_log [simp]: "written (dir_log r) = []"
  by (cases r) auto

lemma fs_call_mem: "list_all is_fs_call d \<Longrightarrow> ev \<in> set d \<Longrightarrow> is_fs_call ev"
  by (simp add: list_all_iff)

lemma quiet_run_events:
  "events (final (action quiet_env app_answers host_fs)) =
     [ConsoleLog ''Set My Stack'', Prompt ''What is your project named?'',
      Prompt ''Choose your template'', SpinnerStart ''Creating your Next.js app...'',
      CallMkdir [''home'', ''user'', ''app''],
      CallWriteFile [''home'', ''user'', ''app'', ''package.json''] (manifest ''app''),
      CallMkdir [''home'', ''user'', ''app'', ''public''],
      CallMkdir [''home'', ''user'', ''app'', ''src'', ''app''],
      CallMkdir [''home'', ''user'', ''app'', ''src'', ''components''],
      CallMkdir [''home'', ''user'', ''app'', ''src'', ''styles''],
      CallWriteFile [''home'', ''user'', ''app'', ''src'', ''app'', ''layout.tsx''] layoutContent,
      CallWriteFile [''home'', ''user'', ''app'', ''src'', ''app'', ''page.tsx''] pageContent,
      CallWriteFile [''home'', ''user'', ''app'', ''src'', ''styles'', ''globals.css''] globalCssContent,
      CallExec ''git init'' [''home'', ''user'', ''app''] True,
      CallWriteFile [''home'', ''user'', ''app'', ''.gitignore''] gitignoreContent,
      SpinnerText ''Installing dependencies...'',
      CallExec ''npm install'' [''home'', ''user'', ''app''] True,
      SpinnerSucceed ''app'' [''home'', ''user'', ''app'']]"
  by code_simp

lemma action_prompts:
  "prompts (events (final (action e a f)))
     = [''What is your project named?'', ''Choose your template'']"
proof (rule action_cases[of e a f])
  fix d err
  assume "events (final (action e a f)) = events (started f) @ CallMkdir (projectPath e a)
           # dir_log (fst (mkdir_chain (denied e) (projectPath e a) (tl (prefixes (projectPath e a))) f))
           @ CallWriteFile (projectPath e a @ [''package.json'']) (manifest (projectName a)) # d
           @ [SpinnerFail ''Failed to create project'', ConsoleErrorRaw err, ProcessExit 1]"
    and "list_all is_fs_call d"
  then show ?thesis by (simp add: prompts_fs_calls)
next
  fix d okg glog okn
  assume "events (final (action e a f)) = events (started f) @ CallMkdir (projectPath e a)
           # dir_log (fst (mkdir_chain (denied e) (projectPath e a) (tl (prefixes (projectPath e a))) f))
           @ CallWriteFile (projectPath e a @ [''package.json'']) (manifest (projectName a)) # d
           @ CallExec ''git init'' (projectPath e a) okg # glog
           @ [SpinnerText ''Installing dependencies...'', CallExec ''npm install'' (projectPath e a) okn]
           @ (if okn then [SpinnerSucceed (projectName a) (projectPath e a)]
              else [SpinnerFail ''Failed to create project'',
                    ConsoleErrorRaw (ExitNonZero ''npm install''), ProcessExit 1])"
    and "list_all is_fs_call d" and "gitlog (projectPath e a) okg glog"
  then show ?thesis by (simp add: prompts_fs_calls prompts_gitlog)
qed

lemma hex_val_digit: "n < 16 \<Longrightarrow> hex_val (hex_digit n) = Some n"
proof -
  have "list_all (\<lambda>k. hex_val (hex_digit k) = Some k) [0..<16]"
    by code_simp
  then show "n < 16 \<Longrightarrow> hex_val (hex_digit n) = Some n"
    by (simp add: list_all_iff)
qed

lemma hex_val_zero: "hex_val CHR ''0'' = Some 0"
  by (simp add: hex_val_def)

lemma push_Some: "push c (Some (s, rest)) = Some (c # s, rest)"
  by (simp add: push_def)

lemma read_chars_quote_char: "read_chars (quote_char c @ t) = push c (read_chars t)"
proof -
  consider (q) "c = CHR 0x22" | (b) "c = CHR 0x5C" | (c8) "c = CHR 0x08" | (cc) "c = CHR 0x0C"
    | (ca) "c = CHR 0x0A" | (cd) "c = CHR 0x0D" | (c9) "c = CHR 0x09"
    | (low) "c \<noteq> CHR 0x22" "c \<noteq> CHR 0x5C" "c \<noteq> CHR 0x08" "c \<noteq> CHR 0x0C" "c \<noteq> CHR 0x0A"
            "c \<noteq> CHR 0x0D" "c \<noteq> CHR 0x09" "(of_char c :: nat) < 32"
    | (plain) "c \<noteq> CHR 0x22" "c \<noteq> CHR 0x5C" "\<not> (of_char c :: nat) < 32"
    by (cases "(of_char c :: nat) < 32") auto
  then show ?thesis
  proof cases
    case low
    let ?n = "of_char c :: nat"
    have d: "?n div 16 < 16" "?n mod 16 < 16" "?n div 16 < 8" using low(8) by auto
    have again: "char_of (16 * (?n div 16) + ?n mod 16) = c" by simp
    show ?thesis using low
      by (simp add: quote_char_def hex_val_zero hex_val_digit[OF d(1)] hex_val_digit[OF d(2)] d(3) again)
  next
    case plain
    then have "c \<noteq> CHR 0x08" "c \<noteq> CHR 0x0C" "c \<noteq> CHR 0x0A" "c \<noteq> CHR 0x0D" "c \<noteq> CHR 0x09"
      by auto
    then show ?thesis using plain by (simp add: quote_char_def)
  qed (simp_all add: quote_char_def unescape_def)
qed

lemma read_chars_quoted:
  "read_chars (concat (map quote_char s) @ CHR 0x22 # rest) = Some (s, rest)"
  by (induction s) (simp_all add: read_chars_quote_char push_Some)

lemma read_string: "read_chars (tl (json_quote s) @ rest) = Some (s, rest)"
  by (simp add: json_quote_def read_chars_quoted)

lemma skip_ws_indent: "skip_ws (CHR 0x0A # replicate k (CHR '' '') @ t) = skip_ws t"
  by (induction k) (simp_all add: is_ws_def)

lemma skip_ws_value: "skip_ws (stringify ind v @ t) = stringify ind v @ t"
  by (cases v) (simp_all add: json_quote_def is_ws_def)

lemma skip_ws_close: "skip_ws (CHR 0x0A # replicate i (CHR '' '') @ CHR ''}'' # rest) = CHR ''}'' # rest"
  using skip_ws_indent[of i "CHR ''}'' # rest"] by (simp add: is_ws_def)

lemma read_object:
  "skip_ws cs = CHR 0x22 # t \<Longrightarrow>
   read_value (Suc n) (CHR ''{'' # cs)
     = (case read_members n (CHR 0x22 # t) of
          None \<Rightarrow> None
        | Some (kvs, rest) \<Rightarrow> Some (JObject kvs, rest))"
  by simp

lemma read_key:
  "read_members (Suc n) (json_quote k @ CHR '':'' # CHR '' '' # t)
     = (case read_value n (skip_ws t) of
          None \<Rightarrow> None
        | Some (v, r3) \<Rightarrow>
            (case skip_ws r3 of
               [] \<Rightarrow> None
             | c4 # r4 \<Rightarrow>
                 if c4 = CHR ''}'' then Some ([(k, v)], r4)
                 else if c4 = CHR '','' then
                   (case read_members n (skip_ws r4) of
                      None \<Rightarrow> None
                    | Some (kvs, r5) \<Rightarrow> Some ((k, v) # kvs, r5))
                 else None))"
proof -
  have eq: "json_quote k @ CHR '':'' # CHR '' '' # t = CHR 0x22 # (tl (json_quote k) @ CHR '':'' # CHR '' '' # t)"
    by (simp add: json_quote_def)
  show ?thesis
    by (subst eq) (simp add: read_string is_ws_def del: read_value.simps)
qed

lemma members_start:
  "kvs \<noteq> [] \<Longrightarrow> \<exists>t. join_with (separator j) (map (member_text j) kvs) @ u = CHR 0x22 # t"
proof (cases kvs)
  case Nil
  then show "kvs \<noteq> [] \<Longrightarrow> ?thesis" by simp
next
  case (Cons kv kvs')
  then show ?thesis by (cases kvs') (simp_all add: member_text_def json_quote_def)
qed

lemma read_members_join:
  assumes IH: "\<And>k v fuel ind rest. (k, v) \<in> set kvs \<Longrightarrow> cost v \<le> fuel
                 \<Longrightarrow> read_value fuel (stringify ind v @ rest) = Some (v, rest)"
    and "kvs \<noteq> []" and "sum_list (map (\<lambda>kv. Suc (cost (snd kv))) kvs) \<le> fuel"
  shows "read_members fuel (join_with (separator j) (map (member_text j) kvs)
            @ CHR 0x0A # replicate i (CHR '' '') @ CHR ''}'' # rest) = Some (kvs, rest)"
  using assms(2,1,3)
proof (induction kvs arbitrary: fuel rule: list_nonempty_induct)
  case (single kv)
  obtain k v where kv: "kv = (k, v)" by (cases kv)
  obtain n where fuel: "fuel = Suc n" and n: "cost v \<le> n"
    using single.prems(2) kv by (cases fuel) auto
  let ?tail = "CHR 0x0A # replicate i (CHR '' '') @ CHR ''}'' # rest"
  have rv: "read_value n (stringify j v @ ?tail) = Some (v, ?tail)"
    using single.prems(1)[of k v n] kv n by simp
  have shape: "join_with (separator j) (map (member_text j) [(k, v)]) @ ?tail
      = json_quote k @ CHR '':'' # CHR '' '' # (stringify j v @ ?tail)"
    by (simp add: member_text_def)
  have "read_members (Suc n) (json_quote k @ CHR '':'' # CHR '' '' # (stringify j v @ ?tail))
      = Some ([(k, v)], rest)"
    unfolding read_key skip_ws_value rv
    by (simp only: option.case prod.case skip_ws_close list.case) simp
  then show ?case unfolding kv fuel shape .
next
  case (cons kv kvs)
  obtain k v where kv: "kv = (k, v)" by (cases kv)
  obtain n where fuel: "fuel = Suc n" and n: "cost v \<le> n"
      and m: "sum_list (map (\<lambda>kv. Suc (cost (snd kv))) kvs) \<le> n"
    using cons.prems(2) kv by (cases fuel) auto
  obtain kv' kvs' where kvs: "kvs = kv' # kvs'" using cons.hyps by (cases kvs) auto
  let ?tail = "CHR 0x0A # replicate i (CHR '' '') @ CHR ''}'' # rest"
  let ?next = "join_with (separator j) (map (member_text j) kvs) @ ?tail"
  have rv: "read_value n (stringify j v @ separator j @ ?next) = Some (v, separator j @ ?next)"
    using cons.prems(1)[of k v n] kv n by simp
  have rm: "read_members n ?next = Some (kvs, rest)"
  proof (rule cons.IH[of n])
    fix k' v' fuel' ind' rest'
    assume "(k', v') \<in> set kvs" "cost v' \<le> fuel'"
    then show "read_value fuel' (stringify ind' v' @ rest') = Some (v', rest')"
      using cons.prems(1)[of k' v' fuel' ind' rest'] by simp
  qed (rule m)
  obtain t where start: "?next = CHR 0x22 # t"
    using members_start[OF cons.hyps, of j ?tail] by blast
  have sep: "skip_ws (separator j @ ?next) = CHR '','' # CHR 0x0A # replicate j (CHR '' '') @ ?next"
    by (simp add: separator_def is_ws_def)
  have after: "skip_ws (CHR 0x0A # replicate j (CHR '' '') @ ?next) = ?next"
    using skip_ws_indent[of j ?next] unfolding start by (simp add: is_ws_def)
  have shape: "join_with (separator j) (map (member_text j) ((k, v) # kvs)) @ ?tail
      = json_quote k @ CHR '':'' # CHR '' '' # (stringify j v @ separator j @ ?next)"
    unfolding kvs by (simp add: member_text_def)
  have "read_members (Suc n) (json_quote k @ CHR '':'' # CHR '' '' # (stringify j v @ separator j @ ?next))
      = Some ((k, v) # kvs, rest)"
    unfolding read_key skip_ws_value rv
    by (simp only: option.case prod.case sep list.case after rm) simp
  then show ?case unfolding kv fuel shape .
qed

lemma read_value_stringify:
  "cost v \<le> fuel \<Longrightarrow> read_value fuel (stringify ind v @ rest) = Some (v, rest)"
proof (induction v arbitrary: fuel ind rest)
  case (JString s)
  then obtain n where "fuel = Suc n" by (cases fuel) auto
  then show ?case
    using read_string[of s rest] by (simp add: json_quote_def)
next
  case (JBool b)
  then obtain n where "fuel = Suc n" by (cases fuel) auto
  then show ?case by simp
next
  case (JObject kvs)
  obtain n where fuel: "fuel = Suc n" and n: "sum_list (map (\<lambda>kv. Suc (cost (snd kv))) kvs) \<le> n"
    using JObject.prems by (cases fuel) auto
  show ?case
  proof (cases "kvs = []")
    case True
    then show ?thesis unfolding fuel by (simp add: is_ws_def)
  next
    case False
    have IH: "read_value fuel (stringify ind v @ rest) = Some (v, rest)"
      if "(k, v) \<in> set kvs" "cost v \<le> fuel" for k v fuel ind rest
      using JObject.IH[of "(k, v)" v fuel ind rest] that by simp
    let ?body = "join_with (separator (ind + 2)) (map (member_text (ind + 2)) kvs)
            @ CHR 0x0A # replicate ind (CHR '' '') @ CHR ''}'' # rest"
    have rm: "read_members n ?body = Some (kvs, rest)"
      using IH False n by (rule read_members_join)
    obtain t where body: "?body = CHR 0x22 # t"
      using members_start[OF False] by blast
    have shape: "stringify ind (JObject kvs) @ rest
        = CHR ''{'' # (CHR 0x0A # replicate (ind + 2) (CHR '' '') @ ?body)"
      using False by (simp add: separator_def member_text_def[abs_def])
    have skip: "skip_ws (CHR 0x0A # replicate (ind + 2) (CHR '' '') @ ?body) = CHR 0x22 # t"
      using skip_ws_indent[of "ind + 2" ?body] unfolding body by (simp add: is_ws_def)
    show ?thesis
      unfolding shape fuel read_object[OF skip] using rm unfolding body by simp
  qed
qed

lemma length_join_with: "sum_list (map length xs) \<le> length (join_with sep xs)"
  by (induction sep xs rule: join_with.induct) auto

lemma cost_le_length: "cost v \<le> length (stringify ind v)"
proof (induction v arbitrary: ind)
  case (JString s)
  show ?case by (simp add: json_quote_def)
next
  case (JBool b)
  show ?case by simp
next
  case (JObject kvs)
  have each: "Suc (cost (snd kv)) \<le> length (member_text (ind + 2) kv)" if "kv \<in> set kvs" for kv
    using JObject.IH[of kv "snd kv" "ind + 2"] that
    by (cases kv) (auto simp: member_text_def json_quote_def)
  have "sum_list (map (\<lambda>kv. Suc (cost (snd kv))) kvs)
          \<le> sum_list (map length (map (member_text (ind + 2)) kvs))"
    unfolding map_map comp_def using each by (intro sum_list_mono) auto
  also have "\<dots> \<le> length (join_with (separator (ind + 2)) (map (member_text (ind + 2)) kvs))"
    by (rule length_join_with)
  finally show ?case
    by (simp add: separator_def member_text_def[abs_def])
qed

lemma JSON_parse_stringify: "JSON_parse (JSON_stringify v) = Some v"
proof -
  have "read_value (length (stringify 0 v)) (stringify 0 v @ []) = Some (v, [])"
    using cost_le_length[of v 0] by (rule read_value_stringify)
  moreover have "skip_ws (stringify 0 v) = stringify 0 v"
    using skip_ws_value[of 0 v "[]"] by simp
  ultimately show ?thesis by (simp add: JSON_parse_def JSON_stringify_def)
qed

section \<open>The claims\<close>




text \<open>
  C2. Two runs that differ only in the template chosen at the second prompt have the
  same outcome: the same exit code, the same final filesystem (so the same generated
  files with the same bytes) and the same sequence of calls and console output. The
  choice is bound and never read.
\<close>

theorem template_choice_is_ignored:
  "action e (a\<lparr>chosen := t1\<rparr>) f = action e (a\<lparr>chosen := t2\<rparr>) f"
  by (simp add: action_def projectPath_def projectName_def)

text \<open>
  C3. Whatever the project name, the template and the host: when the manifest write
  succeeds, the file \<open>package.json\<close> under the target holds a JSON text that reads
  as an object whose \<open>name\<close> is the project name, \<open>version\<close> is \<open>0.1.0\<close>, \<open>private\<close>
  is \<open>true\<close>, \<open>scripts\<close> holds the four \<open>next\<close> commands, and \<open>dependencies\<close> and
  \<open>devDependencies\<close> are the constant maps; and every run calls that write with a
  text that reads as an object named as the prompt answered.
\<close>

theorem manifest_fields:
  "(fst (createPackageJson e dir name w) = Inr () \<longrightarrow>
      (\<exists>content obj.
          files (snd (createPackageJson e dir name w)) (dir @ [''package.json''])
            = Some (File content)
        \<and> JSON_parse content = Some obj
        \<and> json_get ''name'' obj = Some (JString name)
        \<and> json_get ''version'' obj = Some (JString ''0.1.0'')
        \<and> json_get ''private'' obj = Some (JBool True)
        \<and> json_get ''scripts'' obj
            = Some (JObject [(''dev'', JString ''next dev''), (''build'', JString ''next build''),
                             (''start'', JString ''next start''), (''lint'', JString ''next lint'')])
        \<and> json_get ''dependencies'' obj
            = Some (JObject [(''next'', JString ''14.1.0''), (''react'', JString ''^18.2.0''),
                             (''react-dom'', JString ''^18.2.0'')])
        \<and> json_get ''devDependencies'' obj
            = Some (JObject [(''@types/node'', JString ''^20.11.0''),
                             (''@types/react'', JString ''^18.2.0''),
                             (''@types/react-dom'', JString ''^18.2.0''),
                             (''typescript'', JString ''^5.3.0''),
                             (''eslint'', JString ''^8.56.0''),
                             (''eslint-config-next'', JString ''14.1.0'')])))
   \<and> (\<exists>content obj.
          CallWriteFile (projectPath e a @ [''package.json'']) content
            \<in> set (events (final (action e a f)))
        \<and> JSON_parse content = Some obj
        \<and> json_get ''name'' obj = Some (JString (projectName a)))"
proof -
  have fields: "json_get ''name'' (packageJson n) = Some (JString n)
   \<and> json_get ''version'' (packageJson n) = Some (JString ''0.1.0'')
   \<and> json_get ''private'' (packageJson n) = Some (JBool True)
   \<and> json_get ''scripts'' (packageJson n)
       = Some (JObject [(''dev'', JString ''next dev''), (''build'', JString ''next build''),
                        (''start'', JString ''next start''), (''lint'', JString ''next lint'')])
   \<and> json_get ''dependencies'' (packageJson n)
       = Some (JObject [(''next'', JString ''14.1.0''), (''react'', JString ''^18.2.0''),
                        (''react-dom'', JString ''^18.2.0'')])
   \<and> json_get ''devDependencies'' (packageJson n)
       = Some (JObject [(''@types/node'', JString ''^20.11.0''),
                        (''@types/react'', JString ''^18.2.0''),
                        (''@types/react-dom'', JString ''^18.2.0''),
                        (''typescript'', JString ''^5.3.0''),
                        (''eslint'', JString ''^8.56.0''),
                        (''eslint-config-next'', JString ''14.1.0'')])" for n
    by (simp add: packageJson_def)
  have parsed: "JSON_parse (JSON_stringify (packageJson n)) = Some (packageJson n)" for n
    by (rule JSON_parse_stringify)
  have stored: "files (snd (createPackageJson e dir name w)) (dir @ [''package.json''])
              = Some (File (JSON_stringify (packageJson name)))"
    if "fst (createPackageJson e dir name w) = Inr ()"
    using that
      writeFile_ok(1)[of e "dir @ [''package.json'']" "JSON_stringify (packageJson name)" w "()"
        "snd (createPackageJson e dir name w)"]
    by (cases "createPackageJson e dir name w") (simp add: createPackageJson_def path_join_consts)
  have call: "CallWriteFile (projectPath e a @ [''package.json''])
        (JSON_stringify (packageJson (projectName a)))
        \<in> set (events (final (action e a f)))"
    by (rule action_cases[of e a f]) (simp_all add: manifest_def)
  show ?thesis using fields parsed stored call by blast
qed

theorem manifest_fields_witness:
  "fst (createPackageJson quiet_env [''home'', ''user''] ''app'' \<lparr>files = host_fs, events = []\<rparr>) = Inr ()
   \<and> (\<exists>content obj.
          files (snd (createPackageJson quiet_env [''home'', ''user''] ''app''
                   \<lparr>files = host_fs, events = []\<rparr>)) [''home'', ''user'', ''package.json'']
            = Some (File content)
        \<and> JSON_parse content = Some obj
        \<and> json_get ''name'' obj = Some (JString ''app'')
        \<and> json_get ''private'' obj = Some (JBool True))"
proof -
  have ok: "fst (createPackageJson quiet_env [''home'', ''user''] ''app''
                   \<lparr>files = host_fs, events = []\<rparr>) = Inr ()"
    by (simp add: createPackageJson_def path_join_consts writeFile_ok_iff host_fs_def
          quiet_env_def)
  show ?thesis
    using manifest_fields[where name="''app''" and e=quiet_env and dir="[''home'', ''user'']"
            and w="\<lparr>files = host_fs, events = []\<rparr>" and a=app_answers and f=host_fs] ok
    by auto
qed

text \<open>
  C4. In every run in which the \<open>npm install\<close> subprocess exits non-zero, the run ends
  with the spinner failure \<open>Failed to create project\<close>, the error on the console and
  \<open>process.exit(1)\<close>; nothing follows the failed call but these three, so no filesystem
  call undoes anything. On a host whose external commands remove nothing, every entry
  that was there before the run is still there and the entries created by the earlier
  steps (the target directory, the manifest, the four subdirectories, the three
  sources, and \<open>.gitignore\<close> when the git step went through) are all present at the
  end.
\<close>

theorem install_failure_is_reported:
  assumes "CallExec ''npm install'' (projectPath e a) False \<in> set (events (final (action e a f)))"
  shows "exit_code (action e a f) = 1
       \<and> (\<exists>pre. events (final (action e a f))
              = pre @ [CallExec ''npm install'' (projectPath e a) False,
                       SpinnerFail ''Failed to create project'',
                       ConsoleErrorRaw (ExitNonZero ''npm install''),
                       ProcessExit 1])
       \<and> (spawn_keeps e \<longrightarrow>
             keeps f (files (final (action e a f)))
           \<and> scaffolded (projectPath e a) (files (final (action e a f)))
           \<and> (CallExec ''git init'' (projectPath e a) True \<in> set (events (final (action e a f)))
                \<and> (\<forall>err. ConsoleError ''Error initializing git:'' err
                            \<notin> set (events (final (action e a f))))
              \<longrightarrow> is_file (files (final (action e a f))) (projectPath e a @ [''.gitignore''])))"
proof (rule action_cases[of e a f])
  fix d err
  assume "events (final (action e a f)) = events (started f) @ CallMkdir (projectPath e a)
           # dir_log (fst (mkdir_chain (denied e) (projectPath e a) (tl (prefixes (projectPath e a))) f))
           @ CallWriteFile (projectPath e a @ [''package.json'']) (manifest (projectName a)) # d
           @ [SpinnerFail ''Failed to create project'', ConsoleErrorRaw err, ProcessExit 1]"
    and "list_all is_fs_call d"
  then show ?thesis using assms(1) by (auto simp: dir_log_mem dest: fs_call_mem)
next
  fix d okg glog okn
  assume ex: "exit_code (action e a f) = (if okn then 0 else 1)"
    and ev: "events (final (action e a f)) = events (started f) @ CallMkdir (projectPath e a)
           # dir_log (fst (mkdir_chain (denied e) (projectPath e a) (tl (prefixes (projectPath e a))) f))
           @ CallWriteFile (projectPath e a @ [''package.json'']) (manifest (projectName a)) # d
           @ CallExec ''git init'' (projectPath e a) okg # glog
           @ [SpinnerText ''Installing dependencies...'', CallExec ''npm install'' (projectPath e a) okn]
           @ (if okn then [SpinnerSucceed (projectName a) (projectPath e a)]
              else [SpinnerFail ''Failed to create project'',
                    ConsoleErrorRaw (ExitNonZero ''npm install''), ProcessExit 1])"
    and d: "list_all is_fs_call d"
    and g: "gitlog (projectPath e a) okg glog"
    and sc: "spawn_keeps e \<Longrightarrow> scaffolded (projectPath e a) (files (final (action e a f)))"
    and gi: "spawn_keeps e \<Longrightarrow> okg
         \<Longrightarrow> glog = [CallWriteFile (projectPath e a @ [''.gitignore'']) gitignoreContent]
         \<Longrightarrow> is_file (files (final (action e a f))) (projectPath e a @ [''.gitignore''])"
  have okn: "\<not> okn"
    using assms(1) d g unfolding ev
    by (auto simp: dir_log_mem gitlog_def split: if_splits dest: fs_call_mem)
  have c1: "exit_code (action e a f) = 1" using ex okn by simp
  have "events (final (action e a f))
      = (events (started f) @ CallMkdir (projectPath e a)
           # dir_log (fst (mkdir_chain (denied e) (projectPath e a) (tl (prefixes (projectPath e a))) f))
           @ CallWriteFile (projectPath e a @ [''package.json'']) (manifest (projectName a)) # d
           @ CallExec ''git init'' (projectPath e a) okg # glog
           @ [SpinnerText ''Installing dependencies...''])
        @ [CallExec ''npm install'' (projectPath e a) False,
           SpinnerFail ''Failed to create project'',
           ConsoleErrorRaw (ExitNonZero ''npm install''), ProcessExit 1]"
    unfolding ev using okn by simp
  then have c2: "\<exists>pre. events (final (action e a f))
              = pre @ [CallExec ''npm install'' (projectPath e a) False,
                       SpinnerFail ''Failed to create project'',
                       ConsoleErrorRaw (ExitNonZero ''npm install''),
                       ProcessExit 1]"
    by blast
  have c3: "keeps f (files (final (action e a f)))" if "spawn_keeps e"
    using that by (rule action_keeps)
  have git_ok: "CallExec ''git init'' (projectPath e a) True \<in> set (events (final (action e a f))) \<longleftrightarrow> okg"
    unfolding ev using d g
    by (auto simp: dir_log_mem gitlog_def split: if_splits dest: fs_call_mem)
  have c5: "is_file (files (final (action e a f))) (projectPath e a @ [''.gitignore''])"
    if "spawn_keeps e"
      and "CallExec ''git init'' (projectPath e a) True \<in> set (events (final (action e a f)))"
      and "\<forall>err. ConsoleError ''Error initializing git:'' err \<notin> set (events (final (action e a f)))"
  proof -
    have "okg" using that(2) git_ok by simp
    moreover have "glog = [CallWriteFile (projectPath e a @ [''.gitignore'']) gitignoreContent]"
      using g \<open>okg\<close> that(3) unfolding ev by (auto simp: gitlog_def)
    ultimately show ?thesis using gi that(1) by simp
  qed
  show ?thesis using c1 c2 c3 sc c5 by simp
qed

theorem install_failure_is_reported_witness:
  "CallExec ''npm install'' [''home'', ''user'', ''app''] False
     \<in> set (events (final (action no_npm_env app_answers host_fs)))
   \<and> spawn_keeps no_npm_env
   \<and> exit_code (action no_npm_env app_answers host_fs) = 1
   \<and> scaffolded [''home'', ''user'', ''app''] (files (final (action no_npm_env app_answers host_fs)))
   \<and> is_file (files (final (action no_npm_env app_answers host_fs)))
        [''home'', ''user'', ''app'', ''.gitignore'']"
proof -
  have p: "projectPath no_npm_env app_answers = [''home'', ''user'', ''app'']"
    by code_simp
  have k: "spawn_keeps no_npm_env"
    by (simp add: spawn_keeps_def no_npm_env_def keeps_refl)
  have n: "CallExec ''npm install'' [''home'', ''user'', ''app''] False
     \<in> set (events (final (action no_npm_env app_answers host_fs)))"
    by code_simp
  have g: "CallExec ''git init'' [''home'', ''user'', ''app''] True
     \<in> set (events (final (action no_npm_env app_answers host_fs)))"
    by code_simp
  have l: "list_all (\<lambda>ev. case ev of ConsoleError l err \<Rightarrow> False | _ \<Rightarrow> True)
             (events (final (action no_npm_env app_answers host_fs)))"
    by code_simp
  have m: "ConsoleError ''Error initializing git:'' err
             \<notin> set (events (final (action no_npm_env app_answers host_fs)))" for err
    using l by (auto simp: list_all_iff)
  show ?thesis
    using install_failure_is_reported[of no_npm_env app_answers host_fs] k n g m
    by (simp add: p)
qed




text \<open>
  C6. In every run in which the \<open>git init\<close> subprocess exits non-zero, the error is
  logged by \<open>initializeGit\<close> right after the call, the run goes on to the spinner text
  and to \<open>npm install\<close>, and the exit code is decided by \<open>npm install\<close> alone.
\<close>

theorem git_failure_is_swallowed:
  assumes "CallExec ''git init'' (projectPath e a) False \<in> set (events (final (action e a f)))"
  shows "\<exists>pre post ok.
           events (final (action e a f))
             = pre @ [CallExec ''git init'' (projectPath e a) False,
                      ConsoleError ''Error initializing git:'' (ExitNonZero ''git init''),
                      SpinnerText ''Installing dependencies...'',
                      CallExec ''npm install'' (projectPath e a) ok] @ post
           \<and> exit_code (action e a f) = (if ok then 0 else 1)"
proof (rule action_cases[of e a f])
  fix d err
  assume "events (final (action e a f)) = events (started f) @ CallMkdir (projectPath e a)
           # dir_log (fst (mkdir_chain (denied e) (projectPath e a) (tl (prefixes (projectPath e a))) f))
           @ CallWriteFile (projectPath e a @ [''package.json'']) (manifest (projectName a)) # d
           @ [SpinnerFail ''Failed to create project'', ConsoleErrorRaw err, ProcessExit 1]"
    and "list_all is_fs_call d"
  then show ?thesis using assms by (auto simp: dir_log_mem dest: fs_call_mem)
next
  fix d okg glog okn
  assume ex: "exit_code (action e a f) = (if okn then 0 else 1)"
    and ev: "events (final (action e a f)) = events (started f) @ CallMkdir (projectPath e a)
           # dir_log (fst (mkdir_chain (denied e) (projectPath e a) (tl (prefixes (projectPath e a))) f))
           @ CallWriteFile (projectPath e a @ [''package.json'']) (manifest (projectName a)) # d
           @ CallExec ''git init'' (projectPath e a) okg # glog
           @ [SpinnerText ''Installing dependencies...'', CallExec ''npm install'' (projectPath e a) okn]
           @ (if okn then [SpinnerSucceed (projectName a) (projectPath e a)]
              else [SpinnerFail ''Failed to create project'',
                    ConsoleErrorRaw (ExitNonZero ''npm install''), ProcessExit 1])"
    and d: "list_all is_fs_call d"
    and g: "gitlog (projectPath e a) okg glog"
  have "\<not> okg"
    using assms d g unfolding ev
    by (auto simp: dir_log_mem gitlog_def split: if_splits dest: fs_call_mem)
  then have glog: "glog = [ConsoleError ''Error initializing git:'' (ExitNonZero ''git init'')]"
    using g by (simp add: gitlog_def)
  have "events (final (action e a f))
      = (events (started f) @ CallMkdir (projectPath e a)
           # dir_log (fst (mkdir_chain (denied e) (projectPath e a) (tl (prefixes (projectPath e a))) f))
           @ CallWriteFile (projectPath e a @ [''package.json'']) (manifest (projectName a)) # d)
        @ [CallExec ''git init'' (projectPath e a) False,
           ConsoleError ''Error initializing git:'' (ExitNonZero ''git init''),
           SpinnerText ''Installing dependencies...'',
           CallExec ''npm install'' (projectPath e a) okn]
        @ (if okn then [SpinnerSucceed (projectName a) (projectPath e a)]
              else [SpinnerFail ''Failed to create project'',
                    ConsoleErrorRaw (ExitNonZero ''npm install''), ProcessExit 1])"
    unfolding ev using glog \<open>\<not> okg\<close> by simp
  then show ?thesis using ex by blast
qed

theorem git_failure_is_swallowed_witness:
  "CallExec ''git init'' [''home'', ''user'', ''app''] False
     \<in> set (events (final (action no_git_env app_answers host_fs)))
   \<and> exit_code (action no_git_env app_answers host_fs) = 0
   \<and> (\<exists>pre post ok.
           events (final (action no_git_env app_answers host_fs))
             = pre @ [CallExec ''git init'' [''home'', ''user'', ''app''] False,
                      ConsoleError ''Error initializing git:'' (ExitNonZero ''git init''),
                      SpinnerText ''Installing dependencies...'',
                      CallExec ''npm install'' [''home'', ''user'', ''app''] ok] @ post
           \<and> exit_code (action no_git_env app_answers host_fs) = (if ok then 0 else 1))"
proof -
  have p: "projectPath no_git_env app_answers = [''home'', ''user'', ''app'']"
    by code_simp
  have g: "CallExec ''git init'' [''home'', ''user'', ''app''] False
     \<in> set (events (final (action no_git_env app_answers host_fs)))"
    by code_simp
  have x: "exit_code (action no_git_env app_answers host_fs) = 0"
    by code_simp
  show ?thesis
    using git_failure_is_swallowed[of no_git_env app_answers host_fs] g x
    by (simp add: p)
qed



text \<open>
  C8. The \<open>.gitignore\<close> write sits behind \<open>git init\<close> in the same \<open>try\<close>: a run in which
  \<open>git init\<close> exits non-zero never calls the write, and a run that calls it did so
  right after a \<open>git init\<close> that exited 0. Such a run can still succeed: on the host
  where \<open>git init\<close> fails the run ends with exit code 0 and no \<open>.gitignore\<close>.
\<close>

theorem gitignore_only_after_git_init:
  "(CallExec ''git init'' (projectPath e a) False \<in> set (events (final (action e a f)))
      \<longrightarrow> (\<forall>c. CallWriteFile (projectPath e a @ [''.gitignore'']) c
                  \<notin> set (events (final (action e a f)))))
   \<and> ((\<exists>c. CallWriteFile (projectPath e a @ [''.gitignore'']) c
               \<in> set (events (final (action e a f))))
      \<longrightarrow> (\<exists>pre post. events (final (action e a f))
              = pre @ [CallExec ''git init'' (projectPath e a) True,
                       CallWriteFile (projectPath e a @ [''.gitignore'']) gitignoreContent] @ post))
   \<and> exit_code (action no_git_env app_answers host_fs) = 0
   \<and> CallExec ''git init'' (projectPath no_git_env app_answers) False
        \<in> set (events (final (action no_git_env app_answers host_fs)))
   \<and> files (final (action no_git_env app_answers host_fs))
        (projectPath no_git_env app_answers @ [''.gitignore'']) = None"
proof -
  have run: "exit_code (action no_git_env app_answers host_fs) = 0
   \<and> CallExec ''git init'' (projectPath no_git_env app_answers) False
        \<in> set (events (final (action no_git_env app_answers host_fs)))
   \<and> files (final (action no_git_env app_answers host_fs))
        (projectPath no_git_env app_answers @ [''.gitignore'']) = None"
    by code_simp
  have both: "(CallExec ''git init'' (projectPath e a) False \<in> set (events (final (action e a f)))
      \<longrightarrow> (\<forall>c. CallWriteFile (projectPath e a @ [''.gitignore'']) c
                  \<notin> set (events (final (action e a f)))))
   \<and> ((\<exists>c. CallWriteFile (projectPath e a @ [''.gitignore'']) c
               \<in> set (events (final (action e a f))))
      \<longrightarrow> (\<exists>pre post. events (final (action e a f))
              = pre @ [CallExec ''git init'' (projectPath e a) True,
                       CallWriteFile (projectPath e a @ [''.gitignore'']) gitignoreContent] @ post))"
  proof (rule action_cases[of e a f])
    fix d err
    assume ev: "events (final (action e a f)) = events (started f) @ CallMkdir (projectPath e a)
           # dir_log (fst (mkdir_chain (denied e) (projectPath e a) (tl (prefixes (projectPath e a))) f))
           @ CallWriteFile (projectPath e a @ [''package.json'']) (manifest (projectName a)) # d
           @ [SpinnerFail ''Failed to create project'', ConsoleErrorRaw err, ProcessExit 1]"
      and d: "list_all is_fs_call d" "prefix (written d) (source_files (projectPath e a))"
    have nw: "CallWriteFile (projectPath e a @ [''.gitignore'']) c \<notin> set d" for c
      using set_mono_prefix[OF d(2)] by (auto simp: written_mem source_files_def)
    show ?thesis unfolding ev using d(1) nw
      by (auto simp: dir_log_mem dest: fs_call_mem)
  next
    fix d okg glog okn
    assume ev: "events (final (action e a f)) = events (started f) @ CallMkdir (projectPath e a)
           # dir_log (fst (mkdir_chain (denied e) (projectPath e a) (tl (prefixes (projectPath e a))) f))
           @ CallWriteFile (projectPath e a @ [''package.json'']) (manifest (projectName a)) # d
           @ CallExec ''git init'' (projectPath e a) okg # glog
           @ [SpinnerText ''Installing dependencies...'', CallExec ''npm install'' (projectPath e a) okn]
           @ (if okn then [SpinnerSucceed (projectName a) (projectPath e a)]
              else [SpinnerFail ''Failed to create project'',
                    ConsoleErrorRaw (ExitNonZero ''npm install''), ProcessExit 1])"
      and d: "list_all is_fs_call d" "written d = source_files (projectPath e a)"
      and g: "gitlog (projectPath e a) okg glog"
    have nw: "CallWriteFile (projectPath e a @ [''.gitignore'']) c \<notin> set d" for c
      using d(2) by (auto simp: written_mem source_files_def)
    show ?thesis
    proof (cases okg)
      case False
      then have glog: "glog = [ConsoleError ''Error initializing git:'' (ExitNonZero ''git init'')]"
        using g by (simp add: gitlog_def)
      show ?thesis unfolding ev using nw False glog by (auto simp: dir_log_mem)
    next
      case True
      then obtain rest where glog: "glog = CallWriteFile (projectPath e a @ [''.gitignore'']) gitignoreContent # rest"
        using g by (auto simp: gitlog_def)
      have shape: "events (final (action e a f))
          = (events (started f) @ CallMkdir (projectPath e a)
               # dir_log (fst (mkdir_chain (denied e) (projectPath e a) (tl (prefixes (projectPath e a))) f))
               @ CallWriteFile (projectPath e a @ [''package.json'']) (manifest (projectName a)) # d)
            @ [CallExec ''git init'' (projectPath e a) True,
               CallWriteFile (projectPath e a @ [''.gitignore'']) gitignoreContent]
            @ (rest @ [SpinnerText ''Installing dependencies...'',
                       CallExec ''npm install'' (projectPath e a) okn]
                @ (if okn then [SpinnerSucceed (projectName a) (projectPath e a)]
                   else [SpinnerFail ''Failed to create project'',
                         ConsoleErrorRaw (ExitNonZero ''npm install''), ProcessExit 1]))"
        unfolding ev using True glog by simp
      have no_false: "CallExec ''git init'' (projectPath e a) False \<notin> set (events (final (action e a f)))"
        unfolding ev using d(1) g True
        by (auto simp: dir_log_mem gitlog_def split: if_splits dest: fs_call_mem)
      show ?thesis using shape no_false by blast
    qed
  qed
  show ?thesis using run both by blast
qed

theorem gitignore_only_after_git_init_witness:
  "CallExec ''git init'' [''home'', ''user'', ''app''] False
     \<in> set (events (final (action no_git_env app_answers host_fs)))
   \<and> (\<forall>c. CallWriteFile [''home'', ''user'', ''app'', ''.gitignore''] c
              \<notin> set (events (final (action no_git_env app_answers host_fs))))
   \<and> (\<exists>c. CallWriteFile [''home'', ''user'', ''app'', ''.gitignore''] c
              \<in> set (events (final (action quiet_env app_answers host_fs))))
   \<and> (\<exists>pre post. events (final (action quiet_env app_answers host_fs))
              = pre @ [CallExec ''git init'' [''home'', ''user'', ''app''] True,
                       CallWriteFile [''home'', ''user'', ''app'', ''.gitignore''] gitignoreContent] @ post)"
proof -
  have p: "projectPath no_git_env app_answers = [''home'', ''user'', ''app'']"
    and q: "projectPath quiet_env app_answers = [''home'', ''user'', ''app'']"
    by code_simp+
  have g: "CallExec ''git init'' [''home'', ''user'', ''app''] False
     \<in> set (events (final (action no_git_env app_answers host_fs)))"
    by code_simp
  have w: "\<exists>c. CallWriteFile [''home'', ''user'', ''app'', ''.gitignore''] c
              \<in> set (events (final (action quiet_env app_answers host_fs)))"
    by (simp add: quiet_run_events)
  show ?thesis
    using gitignore_only_after_git_init[of no_git_env app_answers host_fs]
      gitignore_only_after_git_init[of quiet_env app_answers host_fs] g w
    by (simp add: p q)
qed

text \<open>
  C9. For every run and every template choice \<open>t\<close>, the JavaScript one included, the
  write calls of the run are an initial part of the fixed list: the manifest,
  \<open>src/app/layout.tsx\<close>, \<open>src/app/page.tsx\<close>, \<open>src/styles/globals.css\<close>, \<open>.gitignore\<close>;
  no other path is ever written, so no source is written under another extension. A
  successful run has written both \<open>.tsx\<close> sources.
\<close>

theorem sources_are_always_tsx:
  "prefix (written (events (final (action e (a\<lparr>chosen := t\<rparr>) f))))
     [(projectPath e a @ [''package.json''], JSON_stringify (packageJson (projectName a))),
      (projectPath e a @ [''src'', ''app'', ''layout.tsx''], layoutContent),
      (projectPath e a @ [''src'', ''app'', ''page.tsx''], pageContent),
      (projectPath e a @ [''src'', ''styles'', ''globals.css''], globalCssContent),
      (projectPath e a @ [''.gitignore''], gitignoreContent)]
   \<and> (exit_code (action e (a\<lparr>chosen := t\<rparr>) f) = 0 \<longrightarrow>
        CallWriteFile (projectPath e a @ [''src'', ''app'', ''layout.tsx'']) layoutContent
          \<in> set (events (final (action e (a\<lparr>chosen := t\<rparr>) f)))
        \<and> CallWriteFile (projectPath e a @ [''src'', ''app'', ''page.tsx'']) pageContent
          \<in> set (events (final (action e (a\<lparr>chosen := t\<rparr>) f))))"
proof -
  have same: "action e (a\<lparr>chosen := t\<rparr>) f = action e a f"
    by (simp add: action_def projectPath_def projectName_def)
  have main: "prefix (written (events (final (action e a f))))
     [(projectPath e a @ [''package.json''], JSON_stringify (packageJson (projectName a))),
      (projectPath e a @ [''src'', ''app'', ''layout.tsx''], layoutContent),
      (projectPath e a @ [''src'', ''app'', ''page.tsx''], pageContent),
      (projectPath e a @ [''src'', ''styles'', ''globals.css''], globalCssContent),
      (projectPath e a @ [''.gitignore''], gitignoreContent)]
   \<and> (exit_code (action e a f) = 0 \<longrightarrow>
        CallWriteFile (projectPath e a @ [''src'', ''app'', ''layout.tsx'']) layoutContent
          \<in> set (events (final (action e a f)))
        \<and> CallWriteFile (projectPath e a @ [''src'', ''app'', ''page.tsx'']) pageContent
          \<in> set (events (final (action e a f))))"
  proof (rule action_cases[of e a f])
    fix d err
    assume ex: "exit_code (action e a f) = 1"
      and ev: "events (final (action e a f)) = events (started f) @ CallMkdir (projectPath e a)
           # dir_log (fst (mkdir_chain (denied e) (projectPath e a) (tl (prefixes (projectPath e a))) f))
           @ CallWriteFile (projectPath e a @ [''package.json'']) (manifest (projectName a)) # d
           @ [SpinnerFail ''Failed to create project'', ConsoleErrorRaw err, ProcessExit 1]"
      and d: "prefix (written d) (source_files (projectPath e a))"
    have "prefix (written d) (source_files (projectPath e a) @ [(projectPath e a @ [''.gitignore''], gitignoreContent)])"
      using d by (rule prefix_prefix)
    then show ?thesis unfolding ev using ex
      by (simp add: written_dir_log source_files_def manifest_def)
  next
    fix d okg glog okn
    assume ev: "events (final (action e a f)) = events (started f) @ CallMkdir (projectPath e a)
           # dir_log (fst (mkdir_chain (denied e) (projectPath e a) (tl (prefixes (projectPath e a))) f))
           @ CallWriteFile (projectPath e a @ [''package.json'']) (manifest (projectName a)) # d
           @ CallExec ''git init'' (projectPath e a) okg # glog
           @ [SpinnerText ''Installing dependencies...'', CallExec ''npm install'' (projectPath e a) okn]
           @ (if okn then [SpinnerSucceed (projectName a) (projectPath e a)]
              else [SpinnerFail ''Failed to create project'',
                    ConsoleErrorRaw (ExitNonZero ''npm install''), ProcessExit 1])"
      and d: "written d = source_files (projectPath e a)"
      and g: "gitlog (projectPath e a) okg glog"
    have wg: "written glog = (if okg then [(projectPath e a @ [''.gitignore''], gitignoreContent)] else [])"
      using g by (auto simp: gitlog_def split: if_splits)
    have mem: "CallWriteFile (projectPath e a @ [''src'', ''app'', ''layout.tsx'']) layoutContent \<in> set d"
      "CallWriteFile (projectPath e a @ [''src'', ''app'', ''page.tsx'']) pageContent \<in> set d"
      using d by (simp_all add: written_mem source_files_def)
    show ?thesis unfolding ev using d wg mem
      by (simp add: written_dir_log source_files_def manifest_def)
  qed
  show ?thesis unfolding same by (rule main)
qed

theorem sources_are_always_tsx_witness:
  "exit_code (action quiet_env (app_answers\<lparr>chosen := BasicJavaScript\<rparr>) host_fs) = 0
   \<and> CallWriteFile [''home'', ''user'', ''app'', ''src'', ''app'', ''layout.tsx''] layoutContent
        \<in> set (events (final (action quiet_env (app_answers\<lparr>chosen := BasicJavaScript\<rparr>) host_fs)))
   \<and> CallWriteFile [''home'', ''user'', ''app'', ''src'', ''app'', ''page.tsx''] pageContent
        \<in> set (events (final (action quiet_env (app_answers\<lparr>chosen := BasicJavaScript\<rparr>) host_fs)))"
proof -
  have p: "projectPath quiet_env app_answers = [''home'', ''user'', ''app'']"
    by code_simp
  have x: "exit_code (action quiet_env (app_answers\<lparr>chosen := BasicJavaScript\<rparr>) host_fs) = 0"
    by code_simp
  show ?thesis
    using sources_are_always_tsx[where e=quiet_env and a=app_answers and t=BasicJavaScript
            and f=host_fs] x
    by (simp add: p)
qed




end
